theory Spec2Isabelle
  imports Main "HOL-Library.Word"
begin

section \<open>The data of the logging framework and of the bot API\<close>

text \<open>
  \<^verbatim>\<open>zapcore.Level\<close> is an \<^verbatim>\<open>int8\<close>. The named levels of zap v1.23.0 are
  Debug = -1, Info = 0, Warn = 1, Error = 2, DPanic = 3, Panic = 4, Fatal = 5; any other
  \<^verbatim>\<open>int8\<close> is a level too.
\<close>

type_synonym Level = "8 word"

definition DebugLevel :: Level where "DebugLevel = - 1"
definition InfoLevel :: Level where "InfoLevel = 0"
definition WarnLevel :: Level where "WarnLevel = 1"
definition ErrorLevel :: Level where "ErrorLevel = 2"
definition DPanicLevel :: Level where "DPanicLevel = 3"
definition PanicLevel :: Level where "PanicLevel = 4"
definition FatalLevel :: Level where "FatalLevel = 5"

text \<open>
  \<^verbatim>\<open>zapcore.Entry\<close>: the fields the package reads. \<^verbatim>\<open>Time\<close> holds the text that
  \<^verbatim>\<open>%s\<close> prints for the entry's \<^verbatim>\<open>time.Time\<close>, the only use the package makes of it.
  A \<^verbatim>\<open>zapcore.Field\<close> is a key with its value.
\<close>

record Entry =
  Level :: Level
  Time :: string
  LoggerName :: string
  Message :: string
  Caller :: string
  Stack :: string

type_synonym Field = "string \<times> string"

text \<open>\<^verbatim>\<open>tgbotapi.MessageConfig\<close> and \<^verbatim>\<open>tgbotapi.NewMessage\<close>.\<close>

record MessageConfig =
  ChatID :: "64 word"
  Text :: string
  DisableNotification :: bool
  ParseMode :: string

definition NewMessage :: "64 word \<Rightarrow> string \<Rightarrow> MessageConfig" where
  "NewMessage chatID text =
     \<lparr>ChatID = chatID, Text = text, DisableNotification = False, ParseMode = ''''\<rparr>"

text \<open>
  Errors as values: the three exported errors of the package, the two wrappers built with
  \<^verbatim>\<open>fmt.Errorf\<close>, an error of the bot API library, the two causes a cancelled
  \<^verbatim>\<open>context.Context\<close> reports, and the run-time panics of \<^verbatim>\<open>make\<close> on a negative size and of
  \<^verbatim>\<open>time.NewTicker\<close> on an interval that is not positive.
\<close>

datatype error =
    ErrBotAccessToken
  | ErrChatIDs
  | ErrAsyncOpt
  | NewBotFailed error
  | SendFailed "64 word" error
  | ApiError string
  | Canceled
  | DeadlineExceeded
  | PanicMakeChan
  | PanicNewTicker

section \<open>The Telegram client\<close>

record telegramClient =
  chatIDs :: "64 word list"
  disableNotification :: bool
  enableNotificationOnLevels :: "Level list"
  parseMode :: "string option"
  formatter :: "(Entry \<Rightarrow> Field list \<Rightarrow> string) option"

definition defaultLoggerName :: string where
  "defaultLoggerName = ''zap2telegram''"

definition defaultDisableNotification :: bool where
  "defaultDisableNotification = False"

text \<open>\<^verbatim>\<open>Level.String\<close> of zapcore, with the decimal rendering of \<^verbatim>\<open>%d\<close>.\<close>

fun decimal :: "nat \<Rightarrow> string" where
  "decimal n =
     (if n < 10 then [char_of (48 + n)]
      else decimal (n div 10) @ [char_of (48 + n mod 10)])"

definition Level_String :: "Level \<Rightarrow> string" where
  "Level_String l =
     (if l = DebugLevel then ''debug''
      else if l = InfoLevel then ''info''
      else if l = WarnLevel then ''warn''
      else if l = ErrorLevel then ''error''
      else if l = DPanicLevel then ''dpanic''
      else if l = PanicLevel then ''panic''
      else if l = FatalLevel then ''fatal''
      else ''Level('' @ (if sint l < 0 then ''-'' else '''') @ decimal (nat \<bar>sint l\<bar>) @ '')'')"

definition formatMessage :: "telegramClient \<Rightarrow> Entry \<Rightarrow> Field list \<Rightarrow> string" where
  "formatMessage c e flds =
     (case formatter c of
        Some f \<Rightarrow> f e flds
      | None \<Rightarrow>
          (let loggerName = (if LoggerName e \<noteq> '''' then LoggerName e else defaultLoggerName)
           in ''Logger: '' @ loggerName @ [CHR 0x0A] @ Time e @ [CHR 0x0A]
              @ Level_String (Level e) @ [CHR 0x0A] @ Message e))"

text \<open>
  The remote side. \<^verbatim>\<open>botAPI.Send\<close> is an HTTP call: its outcome is the environment's,
  given here as a function of the number of earlier calls and of the message. Every call
  is recorded in \<open>sent\<close>, every line of \<^verbatim>\<open>log.Println\<close> in \<open>logged\<close>.
\<close>

record BotAPI =
  respond :: "nat \<Rightarrow> MessageConfig \<Rightarrow> error option"
  sent :: "MessageConfig list"
  logged :: "error list"

definition Send :: "MessageConfig \<Rightarrow> BotAPI \<Rightarrow> error option \<times> BotAPI" where
  "Send msg api = (respond api (length (sent api)) msg, api\<lparr>sent := sent api @ [msg]\<rparr>)"

text \<open>
  The message \<^verbatim>\<open>sendMessage\<close> builds for one chat: the inner loop over
  \<^verbatim>\<open>enableNotificationOnLevels\<close> with its \<^verbatim>\<open>break\<close> is \<open>levelListed\<close>.
\<close>

fun levelListed :: "Level \<Rightarrow> Level list \<Rightarrow> bool" where
  "levelListed l [] = False"
| "levelListed l (level # rest) = (if l = level then True else levelListed l rest)"

definition buildMessage :: "telegramClient \<Rightarrow> 64 word \<Rightarrow> Entry \<Rightarrow> Field list \<Rightarrow> MessageConfig" where
  "buildMessage c chatID e flds =
     (let msg = NewMessage chatID (formatMessage c e flds);
          msg = msg\<lparr>DisableNotification := disableNotification c\<rparr>;
          msg = (if length (enableNotificationOnLevels c) > 0
                 then (if levelListed (Level e) (enableNotificationOnLevels c)
                       then msg\<lparr>DisableNotification := False\<rparr> else msg)
                 else msg);
          msg = (case parseMode c of Some p \<Rightarrow> msg\<lparr>ParseMode := p\<rparr> | None \<Rightarrow> msg)
      in msg)"

text \<open>
  \<^verbatim>\<open>sendMessage\<close>: the loop over the chat ids, in order. A failed send is wrapped, printed
  and returned at once: the chats after it are not reached.
\<close>

fun sendLoop ::
  "telegramClient \<Rightarrow> Entry \<Rightarrow> Field list \<Rightarrow> 64 word list \<Rightarrow> BotAPI \<Rightarrow> error option \<times> BotAPI" where
  "sendLoop c e flds [] api = (None, api)"
| "sendLoop c e flds (chatID # rest) api =
     (case Send (buildMessage c chatID e flds) api of
        (Some err, api') \<Rightarrow>
          (let err' = SendFailed chatID err
           in (Some err', api'\<lparr>logged := logged api' @ [err']\<rparr>))
      | (None, api') \<Rightarrow> sendLoop c e flds rest api')"

definition sendMessage ::
  "telegramClient \<Rightarrow> Entry \<Rightarrow> Field list \<Rightarrow> BotAPI \<Rightarrow> error option \<times> BotAPI" where
  "sendMessage c e flds api = sendLoop c e flds (chatIDs c) api"

section \<open>The core\<close>

text \<open>
  \<^verbatim>\<open>zapcore.LevelEnabler\<close> is an interface with the one method \<^verbatim>\<open>Enabled\<close>: a
  predicate on levels. \<^verbatim>\<open>zap.NewAtomicLevelAt(l)\<close> enables every level \<^verbatim>\<open>lvl >= l\<close>
  (\<^verbatim>\<open>Level.Enabled\<close> of zapcore, a comparison of \<^verbatim>\<open>int8\<close>).
\<close>

type_synonym LevelEnabler = "Level \<Rightarrow> bool"

definition NewAtomicLevelAt :: "Level \<Rightarrow> LevelEnabler" where
  "NewAtomicLevelAt l = (\<lambda>lvl. sint l \<le> sint lvl)"

definition defaultLevel :: Level where "defaultLevel = WarnLevel"
definition defaultAsyncOpt :: bool where "defaultAsyncOpt = True"
definition defaultQueueOpt :: bool where "defaultQueueOpt = False"

definition AllLevels :: "Level list" where
  "AllLevels = [DebugLevel, InfoLevel, WarnLevel, ErrorLevel, FatalLevel, PanicLevel]"

text \<open>
  \<^verbatim>\<open>TelegramCore\<close>. The options \<^verbatim>\<open>WithLevel\<close> and \<^verbatim>\<open>WithStrongLevel\<close> assign a field
  \<^verbatim>\<open>levels\<close>; the struct of \<^verbatim>\<open>telegram.go\<close> declares \<^verbatim>\<open>enabler\<close> and no
  \<^verbatim>\<open>levels\<close>, and no function of the package reads \<^verbatim>\<open>levels\<close>. The record has both.
  \<open>entriesChan\<close> is the capacity of the channel (\<open>None\<close>: the nil channel); what the
  channel holds is shared by every copy of the core, so it lives in the world below.
\<close>

record TelegramCore =
  inheritedFields :: "Field list"
  telegramClient :: telegramClient
  enabler :: LevelEnabler
  levels :: "Level list"
  async :: bool
  queue :: bool
  intervalQueue :: "64 word"
  entriesChan :: "nat option"

type_synonym chanEntry = "Entry \<times> Field list"

record Context =
  Err :: error

text \<open>
  What the core shares with its surroundings: the bot API, the outcome of
  \<^verbatim>\<open>tgbotapi.NewBotAPI\<close> for a token, the largest channel buffer the run-time system
  allocates (\<^verbatim>\<open>make\<close> panics with \<^verbatim>\<open>makechan: size out of range\<close> beyond it, as it
  does on a negative size), the buffer of \<^verbatim>\<open>entriesChan\<close>, the goroutines
  that \<^verbatim>\<open>Write\<close> started for asynchronous sends and have not run yet, and the contexts of
  the drain loops that \<^verbatim>\<open>WithQueue\<close> started.
\<close>

record World =
  api :: BotAPI
  newBotAPI :: "string \<Rightarrow> error option"
  maxChanBuf :: nat
  chanBuf :: "chanEntry list"
  spawnedSends :: "(telegramClient \<times> Entry \<times> Field list) list"
  drainLoops :: "Context list"

definition newTelegramClient ::
  "string \<Rightarrow> 64 word list \<Rightarrow> World \<Rightarrow> telegramClient option \<times> error option" where
  "newTelegramClient botAccesstoken ids w =
     (case newBotAPI w botAccesstoken of
        Some err \<Rightarrow> (None, Some (NewBotFailed err))
      | None \<Rightarrow>
          (Some \<lparr>chatIDs = ids, disableNotification = defaultDisableNotification,
                 enableNotificationOnLevels = [], parseMode = None, formatter = None\<rparr>,
           None))"

subsection \<open>Level threshold\<close>

text \<open>
  \<^verbatim>\<open>getLevelThreshold\<close>: the loop over the indices of \<^verbatim>\<open>AllLevels\<close>; the list argument
  of \<open>thresholdFrom\<close> is \<^verbatim>\<open>AllLevels[i:]\<close>.
\<close>

fun thresholdFrom :: "Level list \<Rightarrow> Level \<Rightarrow> Level list" where
  "thresholdFrom [] l = []"
| "thresholdFrom (x # xs) l = (if x = l then x # xs else thresholdFrom xs l)"

definition getLevelThreshold :: "Level \<Rightarrow> Level list" where
  "getLevelThreshold l = thresholdFrom AllLevels l"

subsection \<open>Options\<close>

text \<open>
  An \<^verbatim>\<open>Option\<close> is a function on the core under construction that may fail; it changes
  the core in place, and \<^verbatim>\<open>WithQueue\<close> also makes a channel and starts a goroutine.
  The interval is a \<^verbatim>\<open>time.Duration\<close> (an \<^verbatim>\<open>int64\<close>) and the queue size a Go \<^verbatim>\<open>int\<close>,
  taken at 64 bits; both are read as signed. \<^verbatim>\<open>make\<close> panics on a negative size and on
  one beyond what the run-time system allocates; the panic unwinds through
  \<^verbatim>\<open>NewTelegramCore\<close>, which is read here as the outcome \<open>PanicMakeChan\<close> with no core.
  The goroutine that \<^verbatim>\<open>WithQueue\<close> starts panics in \<^verbatim>\<open>time.NewTicker\<close> when the interval
  is not positive (\<open>consumeEntriesQueue\<close> below). A second
  \<^verbatim>\<open>WithQueue\<close> replaces the channel: the core's buffer is the new, empty one.
\<close>

type_synonym Option = "TelegramCore \<Rightarrow> World \<Rightarrow> error option \<times> TelegramCore \<times> World"

definition WithLevel :: "Level \<Rightarrow> Option" where
  "WithLevel l h w = (let lvls = getLevelThreshold l in (None, h\<lparr>levels := lvls\<rparr>, w))"

definition WithStrongLevel :: "Level \<Rightarrow> Option" where
  "WithStrongLevel l h w = (None, h\<lparr>levels := [l]\<rparr>, w)"

definition WithDisabledNotification :: Option where
  "WithDisabledNotification h w =
     (None, h\<lparr>telegramClient := (telegramClient h)\<lparr>disableNotification := True\<rparr>\<rparr>, w)"

definition WithNotificationOn :: "Level list \<Rightarrow> Option" where
  "WithNotificationOn lvls h w =
     (None,
      h\<lparr>telegramClient :=
          (telegramClient h)\<lparr>disableNotification := True, enableNotificationOnLevels := lvls\<rparr>\<rparr>,
      w)"

definition WithParseMode :: "string \<Rightarrow> Option" where
  "WithParseMode p h w = (None, h\<lparr>telegramClient := (telegramClient h)\<lparr>parseMode := Some p\<rparr>\<rparr>, w)"

definition WithFormatter :: "(Entry \<Rightarrow> Field list \<Rightarrow> string) \<Rightarrow> Option" where
  "WithFormatter f h w = (None, h\<lparr>telegramClient := (telegramClient h)\<lparr>formatter := Some f\<rparr>\<rparr>, w)"

definition WithoutAsyncOpt :: Option where
  "WithoutAsyncOpt h w = (if queue h then (Some ErrAsyncOpt, h, w) else (None, h\<lparr>async := False\<rparr>, w))"

definition WithQueue :: "Context \<Rightarrow> 64 word \<Rightarrow> 64 word \<Rightarrow> Option" where
  "WithQueue ctx interval queueSize h w =
     (let h = h\<lparr>async := False, queue := True, intervalQueue := interval\<rparr>
      in if sint queueSize < 0 \<or> int (maxChanBuf w) < sint queueSize
         then (Some PanicMakeChan, h, w)
         else (None, h\<lparr>entriesChan := Some (nat (sint queueSize))\<rparr>,
               w\<lparr>chanBuf := [], drainLoops := drainLoops w @ [ctx]\<rparr>))"

subsection \<open>Construction\<close>

fun applyOpts ::
  "Option list \<Rightarrow> TelegramCore \<Rightarrow> World \<Rightarrow> (TelegramCore option \<times> error option) \<times> World" where
  "applyOpts [] c w = ((Some c, None), w)"
| "applyOpts (opt # opts) c w =
     (case opt c w of
        (Some err, c', w') \<Rightarrow> ((None, Some err), w')
      | (None, c', w') \<Rightarrow> applyOpts opts c' w')"

definition NewTelegramCore ::
  "string \<Rightarrow> 64 word list \<Rightarrow> Option list \<Rightarrow> World \<Rightarrow> (TelegramCore option \<times> error option) \<times> World" where
  "NewTelegramCore botAccessToken ids opts w =
     (if botAccessToken = '''' then ((None, Some ErrBotAccessToken), w)
      else if length ids = 0 then ((None, Some ErrChatIDs), w)
      else (case newTelegramClient botAccessToken ids w of
              (_, Some err) \<Rightarrow> ((None, Some err), w)
            | (None, None) \<Rightarrow> ((None, None), w)
            | (Some client, None) \<Rightarrow>
                applyOpts opts
                  \<lparr>inheritedFields = [], telegramClient = client,
                   enabler = NewAtomicLevelAt defaultLevel, levels = [],
                   async = defaultAsyncOpt, queue = defaultQueueOpt,
                   intervalQueue = 0, entriesChan = None\<rparr> w))"

subsection \<open>The methods of the core\<close>

definition Enabled :: "TelegramCore \<Rightarrow> Level \<Rightarrow> bool" where
  "Enabled c l = enabler c l"

text \<open>A \<^verbatim>\<open>CheckedEntry\<close> is read as the list of the cores added to it.\<close>

definition Check :: "TelegramCore \<Rightarrow> Entry \<Rightarrow> TelegramCore list \<Rightarrow> TelegramCore list" where
  "Check c ent checked = (if Enabled c (Level ent) then checked @ [c] else checked)"

text \<open>
  Channel operations, read by one goroutine at a time: a send on a full or nil channel and
  a receive from an empty one do not return (\<open>None\<close>) unless another goroutine acts.
  \<open>handleNewQueueEntries\<close> and \<open>Sync\<close> below are the calls as they run while no other
  goroutine receives from the channel between their steps. In queued mode the drain loop
  is a second receiver; the steps of the two, taken in turns, are \<open>hStep\<close> and
  \<open>runSchedule\<close> further down.
\<close>

definition chanLen :: "TelegramCore \<Rightarrow> World \<Rightarrow> nat" where
  "chanLen h w = (case entriesChan h of None \<Rightarrow> 0 | Some n \<Rightarrow> length (chanBuf w))"

definition chanSend :: "TelegramCore \<Rightarrow> chanEntry \<Rightarrow> World \<Rightarrow> World option" where
  "chanSend h ce w =
     (case entriesChan h of
        None \<Rightarrow> None
      | Some n \<Rightarrow> if length (chanBuf w) < n then Some (w\<lparr>chanBuf := chanBuf w @ [ce]\<rparr>) else None)"

definition chanRecv :: "TelegramCore \<Rightarrow> World \<Rightarrow> (chanEntry \<times> World) option" where
  "chanRecv h w =
     (case entriesChan h of
        None \<Rightarrow> None
      | Some n \<Rightarrow> (case chanBuf w of [] \<Rightarrow> None | ce # rest \<Rightarrow> Some (ce, w\<lparr>chanBuf := rest\<rparr>)))"

definition Write ::
  "TelegramCore \<Rightarrow> Entry \<Rightarrow> Field list \<Rightarrow> World \<Rightarrow> (error option \<times> World) option" where
  "Write c ent flds w =
     (let entryFields = flds @ inheritedFields c
      in if async c
         then Some (None, w\<lparr>spawnedSends := spawnedSends w @ [(telegramClient c, ent, entryFields)]\<rparr>)
         else if queue c
         then (case chanSend c (ent, entryFields) w of None \<Rightarrow> None | Some w' \<Rightarrow> Some (None, w'))
         else (case sendMessage (telegramClient c) ent entryFields (api w) of
                 (Some err, a) \<Rightarrow> Some (Some err, w\<lparr>api := a\<rparr>)
               | (None, a) \<Rightarrow> Some (None, w\<lparr>api := a\<rparr>)))"

definition With :: "TelegramCore \<Rightarrow> Field list \<Rightarrow> TelegramCore" where
  "With c flds = (let cloned = c in cloned\<lparr>inheritedFields := inheritedFields cloned @ flds\<rparr>)"

text \<open>A goroutine started by \<^verbatim>\<open>Write\<close> in asynchronous mode runs: the error is dropped.\<close>

definition runSpawnedSend :: "World \<Rightarrow> World" where
  "runSpawnedSend w =
     (case spawnedSends w of
        [] \<Rightarrow> w
      | (c, ent, flds) # rest \<Rightarrow>
          w\<lparr>spawnedSends := rest, api := snd (sendMessage c ent flds (api w))\<rparr>)"

function handleNewQueueEntries :: "TelegramCore \<Rightarrow> World \<Rightarrow> World option" where
  "handleNewQueueEntries h w =
     (if chanLen h w > 0
      then (case chanRecv h w of
              None \<Rightarrow> None
            | Some ((ent, flds), w') \<Rightarrow>
                handleNewQueueEntries h
                  (w'\<lparr>api := snd (sendMessage (telegramClient h) ent flds (api w'))\<rparr>))
      else Some w)"
  by pat_completeness auto
termination
  by (relation "measure (\<lambda>(h, w). length (chanBuf w))")
     (auto simp: chanRecv_def split: option.splits list.splits)

definition Sync :: "TelegramCore \<Rightarrow> World \<Rightarrow> (error option \<times> World) option" where
  "Sync c w =
     (if queue c
      then (case handleNewQueueEntries c w of None \<Rightarrow> None | Some w' \<Rightarrow> Some (None, w'))
      else Some (None, w))"

text \<open>
  \<^verbatim>\<open>consumeEntriesQueue\<close>: the list gives, in order, the case each \<^verbatim>\<open>select\<close> takes. The
  loop returns the context's error after the drain of the \<^verbatim>\<open>ctx.Done\<close> case; it is
  still waiting in \<^verbatim>\<open>select\<close> when the list is used up, and stuck when a drain is.
\<close>

datatype selectCase = TickerC | CtxDone

datatype loopResult = Returned error World | Waiting World | Stuck | Panicked error

fun consumeLoop :: "TelegramCore \<Rightarrow> Context \<Rightarrow> selectCase list \<Rightarrow> World \<Rightarrow> loopResult" where
  "consumeLoop h ctx [] w = Waiting w"
| "consumeLoop h ctx (TickerC # evs) w =
     (case handleNewQueueEntries h w of None \<Rightarrow> Stuck | Some w' \<Rightarrow> consumeLoop h ctx evs w')"
| "consumeLoop h ctx (CtxDone # evs) w =
     (case handleNewQueueEntries h w of None \<Rightarrow> Stuck | Some w' \<Rightarrow> Returned (Err ctx) w')"

definition consumeEntriesQueue :: "TelegramCore \<Rightarrow> Context \<Rightarrow> selectCase list \<Rightarrow> World \<Rightarrow> loopResult" where
  "consumeEntriesQueue h ctx evs w =
     (if sint (intervalQueue h) \<le> 0 then Panicked PanicNewTicker else consumeLoop h ctx evs w)"

section \<open>Slices: what With and Write append to\<close>

text \<open>
  Above, a field slice is its contents. \<^verbatim>\<open>With\<close> copies the struct, not the slice's backing
  array, and \<^verbatim>\<open>append\<close> writes into that array when the capacity allows; whether the
  parent's fields survive a derivation is a question about the arrays. Here a slice is Go's
  slice header on a store of backing arrays: the array's address, the offset of the slice
  in it, its length and its capacity. \<^verbatim>\<open>append\<close> writes in place behind the slice's last
  element when the capacity allows and otherwise copies to a new array, whose capacity
  the run-time system chooses (\<open>grow\<close>, at least what is needed).
\<close>

record slice =
  arr :: nat
  off :: nat
  len :: nat
  cap :: nat

type_synonym store = "Field list list"

definition zeroField :: Field where
  "zeroField = ('''', '''')"

definition view :: "store \<Rightarrow> slice \<Rightarrow> Field list" where
  "view st s = take (len s) (drop (off s) (st ! arr s))"

definition wf_slice :: "store \<Rightarrow> slice \<Rightarrow> bool" where
  "wf_slice st s = (arr s < length st \<and> len s \<le> cap s \<and> off s + cap s \<le> length (st ! arr s))"

definition goAppend :: "(nat \<Rightarrow> nat \<Rightarrow> nat) \<Rightarrow> slice \<Rightarrow> Field list \<Rightarrow> store \<Rightarrow> slice \<times> store" where
  "goAppend grow s xs st =
     (let n = len s + length xs
      in if n \<le> cap s
         then (s\<lparr>len := n\<rparr>,
               st[arr s := take (off s + len s) (st ! arr s) @ xs @ drop (off s + n) (st ! arr s)])
         else (let c = max n (grow (cap s) n)
               in (\<lparr>arr = length st, off = 0, len = n, cap = c\<rparr>,
                   st @ [view st s @ xs @ replicate (c - n) zeroField])))"

text \<open>
  \<^verbatim>\<open>cloned.inheritedFields = append(cloned.inheritedFields, fields...)\<close> of \<^verbatim>\<open>With\<close>, and
  \<^verbatim>\<open>entryFields := append(fields, c.inheritedFields...)\<close> of \<^verbatim>\<open>Write\<close>.
\<close>

definition With_inheritedFields ::
  "(nat \<Rightarrow> nat \<Rightarrow> nat) \<Rightarrow> slice \<Rightarrow> slice \<Rightarrow> store \<Rightarrow> slice \<times> store" where
  "With_inheritedFields grow inherited flds st = goAppend grow inherited (view st flds) st"

definition Write_entryFields ::
  "(nat \<Rightarrow> nat \<Rightarrow> nat) \<Rightarrow> slice \<Rightarrow> slice \<Rightarrow> store \<Rightarrow> slice \<times> store" where
  "Write_entryFields grow flds inherited st = goAppend grow flds (view st inherited) st"

section \<open>Two goroutines in handleNewQueueEntries\<close>

text \<open>
  \<^verbatim>\<open>Sync\<close> runs \<^verbatim>\<open>handleNewQueueEntries\<close> on the caller's goroutine while the drain loop
  runs it on its own, on the same channel. One goroutine's position in the function: about
  to evaluate \<^verbatim>\<open>len(h.entriesChan) > 0\<close>, about to receive, or returned. A step evaluates
  the condition, or receives one entry and sends it; a goroutine that is about to receive
  from the empty channel has no step.
\<close>

datatype pc = AtLen | AtRecv | AtReturn

definition hStep :: "TelegramCore \<Rightarrow> pc \<times> World \<Rightarrow> (pc \<times> World) option" where
  "hStep h s =
     (case s of
        (AtLen, w) \<Rightarrow> Some (if chanLen h w > 0 then AtRecv else AtReturn, w)
      | (AtRecv, w) \<Rightarrow>
          (case chanRecv h w of
             None \<Rightarrow> None
           | Some ((ent, flds), w') \<Rightarrow>
               Some (AtLen, w'\<lparr>api := snd (sendMessage (telegramClient h) ent flds (api w'))\<rparr>))
      | (AtReturn, w) \<Rightarrow> None)"

datatype goroutine = DrainLoop | SyncCaller

text \<open>
  The state is the drain loop's position, the \<^verbatim>\<open>Sync\<close> caller's position and the world; a
  schedule names the goroutine that takes each step.
\<close>

fun runSchedule ::
  "TelegramCore \<Rightarrow> goroutine list \<Rightarrow> pc \<times> pc \<times> World \<Rightarrow> (pc \<times> pc \<times> World) option" where
  "runSchedule h [] s = Some s"
| "runSchedule h (DrainLoop # sch) (pd, ps, w) =
     (case hStep h (pd, w) of
        None \<Rightarrow> None
      | Some (pd', w') \<Rightarrow> runSchedule h sch (pd', ps, w'))"
| "runSchedule h (SyncCaller # sch) (pd, ps, w) =
     (case hStep h (ps, w) of
        None \<Rightarrow> None
      | Some (ps', w') \<Rightarrow> runSchedule h sch (pd, ps', w'))"

section \<open>The exported options and a logging scenario\<close>

text \<open>The options the package exports.\<close>

inductive publicOption :: "Option \<Rightarrow> bool" where
  "publicOption (WithLevel l)"
| "publicOption (WithStrongLevel l)"
| "publicOption WithDisabledNotification"
| "publicOption (WithNotificationOn lvls)"
| "publicOption (WithParseMode p)"
| "publicOption (WithFormatter f)"
| "publicOption WithoutAsyncOpt"
| "publicOption (WithQueue ctx interval queueSize)"

text \<open>
  The application logs the entries of a list one after the other through \<^verbatim>\<open>Write\<close>, with
  nothing else running in between; \<open>None\<close> when one of the calls does not return.
\<close>

fun WriteAll :: "TelegramCore \<Rightarrow> chanEntry list \<Rightarrow> World \<Rightarrow> World option" where
  "WriteAll c [] w = Some w"
| "WriteAll c ((ent, flds) # es) w =
     (case Write c ent flds w of None \<Rightarrow> None | Some (r, w') \<Rightarrow> WriteAll c es w')"

text \<open>
  The same scenario with ticks of the drain loop falling between the calls of \<^verbatim>\<open>Write\<close>,
  each tick one whole drain.
\<close>

datatype action = Log Entry "Field list" | Tick

fun runActions :: "TelegramCore \<Rightarrow> action list \<Rightarrow> World \<Rightarrow> World option" where
  "runActions c [] w = Some w"
| "runActions c (Log ent flds # acts) w =
     (case Write c ent flds w of None \<Rightarrow> None | Some (r, w') \<Rightarrow> runActions c acts w')"
| "runActions c (Tick # acts) w =
     (case handleNewQueueEntries c w of None \<Rightarrow> None | Some w' \<Rightarrow> runActions c acts w')"

fun loggedEntries :: "TelegramCore \<Rightarrow> action list \<Rightarrow> chanEntry list" where
  "loggedEntries c [] = []"
| "loggedEntries c (Log ent flds # acts) = (ent, flds @ inheritedFields c) # loggedEntries c acts"
| "loggedEntries c (Tick # acts) = loggedEntries c acts"

section \<open>Sample values for the closed statements\<close>

text \<open>
  A bot API on which every send succeeds, one on which the first send fails, a world
  built on the first in which channel buffers of up to a million entries can be made, and
  an entry of a given level.
\<close>

definition quietAPI :: BotAPI where
  "quietAPI = \<lparr>respond = (\<lambda>k m. None), sent = [], logged = []\<rparr>"

definition failFirstAPI :: BotAPI where
  "failFirstAPI =
     \<lparr>respond = (\<lambda>k m. if k = 0 then Some (ApiError ''timeout'') else None), sent = [], logged = []\<rparr>"

definition quietWorld :: World where
  "quietWorld =
     \<lparr>api = quietAPI, newBotAPI = (\<lambda>t. None), maxChanBuf = 1000000, chanBuf = [],
      spawnedSends = [], drainLoops = []\<rparr>"

definition sampleEntry :: "Level \<Rightarrow> Entry" where
  "sampleEntry l =
     \<lparr>Level = l, Time = ''11:25:59'', LoggerName = '''', Message = ''Hello'', Caller = '''', Stack = ''''\<rparr>"

text \<open>The core that construction returns for two chat ids and the given options.\<close>

definition sampleCore :: "Option list \<Rightarrow> TelegramCore" where
  "sampleCore opts = the (fst (fst (NewTelegramCore ''token'' [1, 2] opts quietWorld)))"

text \<open>The world that this construction leaves: it has the drain loops that were started.\<close>

definition sampleWorld :: "Option list \<Rightarrow> World" where
  "sampleWorld opts = snd (NewTelegramCore ''token'' [1, 2] opts quietWorld)"

text \<open>A context whose cause, once it is done, is cancellation.\<close>

definition sampleCtx :: Context where
  "sampleCtx = \<lparr>Err = Canceled\<rparr>"

text \<open>
  Sample values: the store holds the empty array of the constructor's
  \<^verbatim>\<open>[]zapcore.Field{}\<close> and one array for each of three caller slices; the run-time system
  gives a new array the capacity 4.
\<close>

definition sampleStore :: store where
  "sampleStore = [[], [(''user'', ''7'')], [(''app'', ''acme'')], [(''req'', ''42'')]]"

definition sampleSlice :: "nat \<Rightarrow> nat \<Rightarrow> slice" where
  "sampleSlice a n = \<lparr>arr = a, off = 0, len = n, cap = n\<rparr>"

section \<open>What sendMessage sends\<close>

lemmas level_defs =
  DebugLevel_def InfoLevel_def WarnLevel_def ErrorLevel_def DPanicLevel_def
  PanicLevel_def FatalLevel_def

lemma levelListed_iff: "levelListed l xs = (l \<in> set xs)"
  by (induction xs) auto

lemma buildMessage_DisableNotification:
  "DisableNotification (buildMessage c chatID e flds) =
     (if Level e \<in> set (enableNotificationOnLevels c) then False else disableNotification c)"
  by (cases "enableNotificationOnLevels c")
     (auto simp: buildMessage_def NewMessage_def Let_def levelListed_iff split: option.splits)

lemma buildMessage_ChatID: "ChatID (buildMessage c chatID e flds) = chatID"
  by (auto simp: buildMessage_def NewMessage_def Let_def split: option.splits)

lemma sendLoop_None:
  "sendLoop c e flds ids a = (None, a') \<Longrightarrow>
     sent a' = sent a @ map (\<lambda>chatID. buildMessage c chatID e flds) ids \<and>
     logged a' = logged a \<and> respond a' = respond a \<and>
     (\<forall>i < length ids.
        respond a (length (sent a) + i) (buildMessage c (ids ! i) e flds) = None)"
proof (induction ids arbitrary: a)
  case Nil
  then show ?case by simp
next
  case (Cons chatID rest)
  let ?m = "buildMessage c chatID e flds"
  let ?a1 = "a\<lparr>sent := sent a @ [?m]\<rparr>"
  from Cons.prems have ok: "respond a (length (sent a)) ?m = None"
    and rec: "sendLoop c e flds rest ?a1 = (None, a')"
    by (auto simp: Send_def Let_def split: option.splits)
  from Cons.IH[OF rec] have ih:
    "sent a' = sent ?a1 @ map (\<lambda>chatID. buildMessage c chatID e flds) rest"
    "logged a' = logged a" "respond a' = respond a"
    "\<forall>i < length rest. respond a (Suc (length (sent a)) + i) (buildMessage c (rest ! i) e flds) = None"
    by auto
  have "\<forall>i < length (chatID # rest).
        respond a (length (sent a) + i) (buildMessage c ((chatID # rest) ! i) e flds) = None"
  proof (intro allI impI)
    fix i assume "i < length (chatID # rest)"
    then show "respond a (length (sent a) + i) (buildMessage c ((chatID # rest) ! i) e flds) = None"
      using ok ih(4) by (cases i) auto
  qed
  with ih show ?case by simp
qed

lemma sendLoop_Some:
  "sendLoop c e flds ids a = (Some err, a') \<Longrightarrow>
     \<exists>pre chatID post x.
        ids = pre @ chatID # post \<and> err = SendFailed chatID x \<and>
        respond a (length (sent a) + length pre) (buildMessage c chatID e flds) = Some x \<and>
        (\<forall>i < length pre.
           respond a (length (sent a) + i) (buildMessage c (pre ! i) e flds) = None) \<and>
        sent a' = sent a @ map (\<lambda>chatID. buildMessage c chatID e flds) (pre @ [chatID]) \<and>
        logged a' = logged a @ [err] \<and> respond a' = respond a"
proof (induction ids arbitrary: a)
  case Nil
  then show ?case by simp
next
  case (Cons chatID rest)
  let ?m = "buildMessage c chatID e flds"
  let ?a1 = "a\<lparr>sent := sent a @ [?m]\<rparr>"
  show ?case
  proof (cases "respond a (length (sent a)) ?m")
    case (Some x)
    with Cons.prems have "err = SendFailed chatID x"
      "a' = ?a1\<lparr>logged := logged ?a1 @ [SendFailed chatID x]\<rparr>"
      by (auto simp: Send_def Let_def)
    with Some show ?thesis
      by (intro exI[of _ "[]"] exI[of _ chatID] exI[of _ rest] exI[of _ x]) simp
  next
    case None
    with Cons.prems have rec: "sendLoop c e flds rest ?a1 = (Some err, a')"
      by (auto simp: Send_def Let_def)
    from Cons.IH[OF rec] obtain pre cid post x where ih:
      "rest = pre @ cid # post" "err = SendFailed cid x"
      "respond a (Suc (length (sent a)) + length pre) (buildMessage c cid e flds) = Some x"
      "\<forall>i < length pre. respond a (Suc (length (sent a)) + i) (buildMessage c (pre ! i) e flds) = None"
      "sent a' = sent ?a1 @ map (\<lambda>chatID. buildMessage c chatID e flds) (pre @ [cid])"
      "logged a' = logged a @ [err]" "respond a' = respond a"
      by auto
    have "\<forall>i < length (chatID # pre).
        respond a (length (sent a) + i) (buildMessage c ((chatID # pre) ! i) e flds) = None"
    proof (intro allI impI)
      fix i assume "i < length (chatID # pre)"
      then show "respond a (length (sent a) + i) (buildMessage c ((chatID # pre) ! i) e flds) = None"
        using None ih(4) by (cases i) auto
    qed
    with ih show ?thesis
      by (intro exI[of _ "chatID # pre"] exI[of _ cid] exI[of _ post] exI[of _ x]) simp
  qed
qed

lemma sendLoop_sent_prefix:
  "\<exists>k \<le> length ids. (ids \<noteq> [] \<longrightarrow> 0 < k) \<and>
     sent (snd (sendLoop c e flds ids a)) =
       sent a @ map (\<lambda>chatID. buildMessage c chatID e flds) (take k ids)"
proof (cases "sendLoop c e flds ids a")
  case (Pair r a')
  show ?thesis
  proof (cases r)
    case None
    with Pair sendLoop_None[of c e flds ids a a'] show ?thesis
      by (intro exI[of _ "length ids"]) auto
  next
    case (Some err)
    with Pair sendLoop_Some[of c e flds ids a err a'] obtain pre chatID post where
      "ids = pre @ chatID # post"
      "sent a' = sent a @ map (\<lambda>chatID. buildMessage c chatID e flds) (pre @ [chatID])"
      by blast
    with Pair show ?thesis
      by (intro exI[of _ "Suc (length pre)"]) auto
  qed
qed

section \<open>Notification on listed levels\<close>

text \<open>
  Claim C4. After \<^verbatim>\<open>WithNotificationOn(U)\<close>, every message that \<^verbatim>\<open>sendMessage\<close> hands to the
  bot API for an entry is sent with notification enabled if and only if the entry's level
  is a member of \<open>U\<close>; for the empty \<open>U\<close> no message is, whatever the level. With at least
  one chat id a message is handed over, so the statement is about something.
\<close>

theorem WithNotificationOn_notifies_iff_listed:
  assumes "WithNotificationOn U h w = (r, h', w')"
    and "sendMessage (telegramClient h') e flds a = (res, a')"
  shows "r = None \<and> w' = w \<and>
     (\<forall>m \<in> set (drop (length (sent a)) (sent a')). (\<not> DisableNotification m) = (Level e \<in> set U)) \<and>
     (chatIDs (telegramClient h) \<noteq> [] \<longrightarrow> length (sent a) < length (sent a'))"
proof -
  from assms(1) have h': "r = None" "w' = w"
    "enableNotificationOnLevels (telegramClient h') = U"
    "disableNotification (telegramClient h') = True"
    "chatIDs (telegramClient h') = chatIDs (telegramClient h)"
    by (auto simp: WithNotificationOn_def)
  let ?c = "telegramClient h'"
  from sendLoop_sent_prefix[of "chatIDs ?c" ?c e flds a] assms(2)
  obtain k where k: "k \<le> length (chatIDs ?c)" "chatIDs ?c \<noteq> [] \<longrightarrow> 0 < k"
    "sent a' = sent a @ map (\<lambda>chatID. buildMessage ?c chatID e flds) (take k (chatIDs ?c))"
    by (auto simp: sendMessage_def)
  have "\<forall>m \<in> set (drop (length (sent a)) (sent a')). (\<not> DisableNotification m) = (Level e \<in> set U)"
    using k(3) h'(3,4) by (auto simp: buildMessage_DisableNotification)
  moreover have "chatIDs (telegramClient h) \<noteq> [] \<longrightarrow> length (sent a) < length (sent a')"
    using k h'(5) by auto
  ultimately show ?thesis using h' by simp
qed

lemmas fixture_defs =
  sampleCore_def quietWorld_def quietAPI_def failFirstAPI_def sampleEntry_def

lemmas construct_defs =
  NewTelegramCore_def newTelegramClient_def defaultDisableNotification_def defaultLevel_def
  defaultAsyncOpt_def defaultQueueOpt_def

lemmas option_defs =
  WithLevel_def WithStrongLevel_def WithDisabledNotification_def WithNotificationOn_def
  WithParseMode_def WithFormatter_def WithoutAsyncOpt_def WithQueue_def

theorem WithNotificationOn_notifies_iff_listed_witness:
  "\<exists>h' a' b'.
     WithNotificationOn [ErrorLevel] (sampleCore []) quietWorld = (None, h', quietWorld) \<and>
     sendMessage (telegramClient h') (sampleEntry ErrorLevel) [] quietAPI = (None, a') \<and>
     map DisableNotification (sent a') = [False, False] \<and>
     sendMessage (telegramClient h') (sampleEntry InfoLevel) [] quietAPI = (None, b') \<and>
     map DisableNotification (sent b') = [True, True]"
proof -
  let ?h' = "sampleCore [WithNotificationOn [ErrorLevel]]"
  let ?a' = "snd (sendMessage (telegramClient ?h') (sampleEntry ErrorLevel) [] quietAPI)"
  let ?b' = "snd (sendMessage (telegramClient ?h') (sampleEntry InfoLevel) [] quietAPI)"
  have opt: "WithNotificationOn [ErrorLevel] (sampleCore []) quietWorld = (None, ?h', quietWorld)"
    by (simp add: fixture_defs construct_defs option_defs)
  have sa: "sendMessage (telegramClient ?h') (sampleEntry ErrorLevel) [] quietAPI = (None, ?a')"
    by (simp add: fixture_defs construct_defs option_defs sendMessage_def Send_def)
  have sb: "sendMessage (telegramClient ?h') (sampleEntry InfoLevel) [] quietAPI = (None, ?b')"
    by (simp add: fixture_defs construct_defs option_defs sendMessage_def Send_def)
  have la: "length (sent ?a') = 2" and lb: "length (sent ?b') = 2"
    by (simp_all add: fixture_defs construct_defs option_defs sendMessage_def Send_def)
  have ea: "Level (sampleEntry ErrorLevel) \<in> set [ErrorLevel]"
    and eb: "Level (sampleEntry InfoLevel) \<notin> set [ErrorLevel]"
    by (simp_all add: sampleEntry_def level_defs)
  have q: "sent quietAPI = []" by (simp add: quietAPI_def)
  from WithNotificationOn_notifies_iff_listed[OF opt sa] ea q
  have "\<forall>m \<in> set (sent ?a'). \<not> DisableNotification m" by simp
  with la have ra: "map DisableNotification (sent ?a') = [False, False]"
    by (cases "sent ?a'" rule: list.exhaust; cases "tl (sent ?a')")
       (auto simp: length_Suc_conv)
  from WithNotificationOn_notifies_iff_listed[OF opt sb] eb q
  have "\<forall>m \<in> set (sent ?b'). DisableNotification m" by simp
  with lb have rb: "map DisableNotification (sent ?b') = [True, True]"
    by (cases "sent ?b'" rule: list.exhaust; cases "tl (sent ?b')")
       (auto simp: length_Suc_conv)
  from opt sa ra sb rb show ?thesis
    by (intro exI[of _ ?h'] exI[of _ ?a'] exI[of _ ?b'] conjI)
qed

section \<open>The level policy\<close>

lemma thresholdFrom_dropWhile: "thresholdFrom xs l = dropWhile (\<lambda>x. x \<noteq> l) xs"
  by (induction xs) auto

lemma getLevelThreshold_dropWhile: "getLevelThreshold l = dropWhile (\<lambda>x. x \<noteq> l) AllLevels"
  by (simp add: getLevelThreshold_def thresholdFrom_dropWhile)

lemma getLevelThreshold_nonempty: "(getLevelThreshold l \<noteq> []) = (l \<in> set AllLevels)"
  by (auto simp: getLevelThreshold_dropWhile)

lemma getLevelThreshold_suffix: "\<exists>pre. AllLevels = pre @ getLevelThreshold l \<and> l \<notin> set pre"
  unfolding getLevelThreshold_dropWhile
  by (rule exI[of _ "takeWhile (\<lambda>x. x \<noteq> l) AllLevels"]) (auto dest: set_takeWhileD)

lemma getLevelThreshold_hd: "l \<in> set AllLevels \<Longrightarrow> hd (getLevelThreshold l) = l"
  unfolding getLevelThreshold_dropWhile using hd_dropWhile[of "\<lambda>x. x \<noteq> l" AllLevels]
  by auto

text \<open>
  What \<^verbatim>\<open>getLevelThreshold\<close> returns for a listed floor holds exactly the listed levels
  at or after the floor's position in \<^verbatim>\<open>AllLevels\<close>.
\<close>

lemma getLevelThreshold_members:
  assumes "F \<in> set AllLevels" and "L \<in> set AllLevels"
  shows "(L \<in> set (getLevelThreshold F)) =
     (length (takeWhile (\<lambda>x. x \<noteq> F) AllLevels) \<le> length (takeWhile (\<lambda>x. x \<noteq> L) AllLevels))"
  using assms
  by (auto simp: getLevelThreshold_def AllLevels_def level_defs)

lemma publicOption_enabler:
  "publicOption opt \<Longrightarrow> opt h w = (r, h', w') \<Longrightarrow> enabler h' = enabler h"
  by (induction rule: publicOption.induct)
     (auto simp: option_defs Let_def split: if_splits)

lemma applyOpts_append:
  "applyOpts (xs @ ys) c w =
     (case applyOpts xs c w of
        ((Some c', None), w') \<Rightarrow> applyOpts ys c' w'
      | r \<Rightarrow> r)"
  by (induction xs arbitrary: c w) (auto split: prod.splits option.splits)

lemma applyOpts_result:
  "applyOpts opts c w = ((rc, re), w') \<Longrightarrow> (rc = None) = (re \<noteq> None)"
  by (induction opts arbitrary: c w) (auto split: prod.splits option.splits)

lemma applyOpts_enabler:
  "list_all publicOption opts \<Longrightarrow> applyOpts opts c w = ((Some c', re), w') \<Longrightarrow>
   enabler c' = enabler c"
proof (induction opts arbitrary: c w)
  case Nil
  then show ?case by simp
next
  case (Cons opt opts)
  from Cons.prems(2) obtain c1 w1 where
    s: "opt c w = (None, c1, w1)" and r: "applyOpts opts c1 w1 = ((Some c', re), w')"
    by (auto split: prod.splits option.splits)
  from Cons.prems(1) have "publicOption opt" "list_all publicOption opts" by simp_all
  with s r Cons.IH[of c1 w1] publicOption_enabler[of opt c w None c1 w1]
  show ?case by simp
qed

lemma NewTelegramCore_enabler:
  assumes "list_all publicOption opts"
    and "fst (NewTelegramCore tok ids opts w) = (Some c, re)"
  shows "enabler c = NewAtomicLevelAt WarnLevel"
proof -
  from assms(2) obtain client w' where
    "applyOpts opts
       \<lparr>inheritedFields = [], telegramClient = client,
        enabler = NewAtomicLevelAt defaultLevel, levels = [],
        async = defaultAsyncOpt, queue = defaultQueueOpt,
        intervalQueue = 0, entriesChan = None\<rparr> w = ((Some c, re), w')"
    by (cases "applyOpts opts
       \<lparr>inheritedFields = [], telegramClient = the (fst (newTelegramClient tok ids w)),
        enabler = NewAtomicLevelAt defaultLevel, levels = [],
        async = defaultAsyncOpt, queue = defaultQueueOpt,
        intervalQueue = 0, entriesChan = None\<rparr> w")
       (auto simp: NewTelegramCore_def split: if_splits prod.splits option.splits)
  from applyOpts_enabler[OF assms(1) this] show ?thesis
    by (simp add: defaultLevel_def)
qed

lemma Enabled_public:
  assumes "list_all publicOption opts"
    and "fst (NewTelegramCore tok ids opts w) = (Some c, re)"
  shows "Enabled c l = (sint WarnLevel \<le> sint l)"
  using NewTelegramCore_enabler[OF assms] by (simp add: Enabled_def NewAtomicLevelAt_def)

text \<open>
  Claim C2. The claim: after \<^verbatim>\<open>WithLevel(F)\<close>, \<^verbatim>\<open>Enabled(L)\<close> holds exactly for the levels
  from \<open>F\<close> on in the ordered list. On the code, \<^verbatim>\<open>WithLevel\<close> stores the suffix of the list
  in \<^verbatim>\<open>levels\<close> and \<^verbatim>\<open>Enabled\<close> asks the \<^verbatim>\<open>enabler\<close> set at construction: with the floor
  debug, debug is not enabled; with the floor error, warn is enabled, though the stored
  suffix is error, fatal, panic.
\<close>

theorem WithLevel_Enabled_stays_at_warn:
  "\<not> Enabled (sampleCore [WithLevel DebugLevel]) DebugLevel \<and>
   Enabled (sampleCore [WithLevel ErrorLevel]) WarnLevel \<and>
   levels (sampleCore [WithLevel ErrorLevel]) = [ErrorLevel, FatalLevel, PanicLevel]"
  by (simp add: fixture_defs construct_defs option_defs Enabled_def NewAtomicLevelAt_def
      getLevelThreshold_def AllLevels_def level_defs)

text \<open>
  Claim C9. The claim: after \<^verbatim>\<open>WithStrongLevel(E)\<close>, \<^verbatim>\<open>Enabled(L)\<close> holds exactly for
  \<open>L = E\<close>. On the code, \<^verbatim>\<open>WithStrongLevel\<close> stores the one level in \<^verbatim>\<open>levels\<close> and
  \<^verbatim>\<open>Enabled\<close> asks the \<^verbatim>\<open>enabler\<close> set at construction: with the exact level debug,
  debug is not enabled and error is.
\<close>

theorem WithStrongLevel_Enabled_stays_at_warn:
  "\<not> Enabled (sampleCore [WithStrongLevel DebugLevel]) DebugLevel \<and>
   Enabled (sampleCore [WithStrongLevel DebugLevel]) ErrorLevel \<and>
   levels (sampleCore [WithLevel ErrorLevel, WithStrongLevel DebugLevel]) = [DebugLevel]"
  by (simp add: fixture_defs construct_defs option_defs Enabled_def NewAtomicLevelAt_def
      getLevelThreshold_def AllLevels_def level_defs)

text \<open>
  Claim C10. The claim: configuring the threshold floor with any severity, zap's
  \<^verbatim>\<open>DPanicLevel\<close> included, yields a non-empty suffix of the severity list. On the code,
  \<^verbatim>\<open>AllLevels\<close> (commented as all levels provided by zap) has no \<^verbatim>\<open>DPanicLevel\<close>, and
  \<^verbatim>\<open>getLevelThreshold\<close> (commented as returning all levels equal and above the given one)
  returns the empty list for it, which is what \<^verbatim>\<open>WithLevel\<close> then stores.
\<close>

theorem getLevelThreshold_DPanic_empty:
  "getLevelThreshold DPanicLevel = [] \<and> levels (sampleCore [WithLevel DPanicLevel]) = []"
  by (simp add: fixture_defs construct_defs option_defs getLevelThreshold_def AllLevels_def
      level_defs)

section \<open>Synchronous delivery\<close>

text \<open>
  Claim C1, as stated, fails: with two chat ids and a bot API whose first send fails, the
  synchronous \<^verbatim>\<open>Write\<close> returns the wrapped failure of chat 1 and the only message handed
  to the bot API is the one for chat 1; no send to chat 2 is attempted.
\<close>

theorem Write_sync_skips_chats_after_failure:
  "chatIDs (telegramClient (sampleCore [WithoutAsyncOpt])) = [1, 2] \<and>
   (\<exists>w'. Write (sampleCore [WithoutAsyncOpt]) (sampleEntry ErrorLevel) []
            (quietWorld\<lparr>api := failFirstAPI\<rparr>)
          = Some (Some (SendFailed 1 (ApiError ''timeout'')), w') \<and>
         map ChatID (sent (api w')) = [1])"
  by (simp add: fixture_defs construct_defs option_defs Write_def sendMessage_def Send_def
      Let_def buildMessage_ChatID)

text \<open>
  Claim C1, amended. In synchronous mode \<^verbatim>\<open>Write\<close> returns, having changed nothing but
  the bot API's state, and the sends are attempted in the order of the chat ids up to the
  first failure. Either the result is nil: then every send succeeded, all chats were sent
  to and nothing was printed. Or the result is an error: then the chat ids split at the
  first chat whose send failed, the sends before it succeeded, the messages handed to the
  bot API are those up to and including it, none for the chats after it, and the result,
  which is also printed, is that failure wrapped with the chat id. So a failed send stops
  the loop and is what \<^verbatim>\<open>Write\<close> returns.
\<close>

theorem Write_sync_stops_at_first_failure:
  assumes "\<not> async c" and "\<not> queue c"
  shows "\<exists>r w'. Write c ent flds w = Some (r, w') \<and> w' = w\<lparr>api := api w'\<rparr> \<and>
     (case r of
        None \<Rightarrow>
          (\<forall>i < length (chatIDs (telegramClient c)).
             respond (api w) (length (sent (api w)) + i)
               (buildMessage (telegramClient c) (chatIDs (telegramClient c) ! i) ent
                  (flds @ inheritedFields c)) = None) \<and>
          sent (api w') =
            sent (api w) @
            map (\<lambda>chatID. buildMessage (telegramClient c) chatID ent (flds @ inheritedFields c))
              (chatIDs (telegramClient c)) \<and>
          logged (api w') = logged (api w)
      | Some err \<Rightarrow>
          (\<exists>pre chatID post x.
             chatIDs (telegramClient c) = pre @ chatID # post \<and>
             err = SendFailed chatID x \<and>
             respond (api w) (length (sent (api w)) + length pre)
               (buildMessage (telegramClient c) chatID ent (flds @ inheritedFields c)) = Some x \<and>
             (\<forall>i < length pre.
                respond (api w) (length (sent (api w)) + i)
                  (buildMessage (telegramClient c) (pre ! i) ent (flds @ inheritedFields c)) = None) \<and>
             sent (api w') =
               sent (api w) @
               map (\<lambda>chatID. buildMessage (telegramClient c) chatID ent (flds @ inheritedFields c))
                 (pre @ [chatID]) \<and>
             logged (api w') = logged (api w) @ [err]))"
proof (cases "sendMessage (telegramClient c) ent (flds @ inheritedFields c) (api w)")
  case (Pair r a')
  show ?thesis
  proof (cases r)
    case None
    with Pair have wr: "Write c ent flds w = Some (None, w\<lparr>api := a'\<rparr>)"
      using assms by (simp add: Write_def)
    from Pair None have "(\<forall>i < length (chatIDs (telegramClient c)).
             respond (api w) (length (sent (api w)) + i)
               (buildMessage (telegramClient c) (chatIDs (telegramClient c) ! i) ent
                  (flds @ inheritedFields c)) = None) \<and>
          sent a' = sent (api w) @
            map (\<lambda>chatID. buildMessage (telegramClient c) chatID ent (flds @ inheritedFields c))
              (chatIDs (telegramClient c)) \<and>
          logged a' = logged (api w)"
      using sendLoop_None[of "telegramClient c" ent "flds @ inheritedFields c"
          "chatIDs (telegramClient c)" "api w" a']
      by (simp add: sendMessage_def)
    with wr show ?thesis by simp
  next
    case (Some err)
    with Pair have wr: "Write c ent flds w = Some (Some err, w\<lparr>api := a'\<rparr>)"
      using assms by (simp add: Write_def)
    from Pair Some have "\<exists>pre chatID post x.
             chatIDs (telegramClient c) = pre @ chatID # post \<and>
             err = SendFailed chatID x \<and>
             respond (api w) (length (sent (api w)) + length pre)
               (buildMessage (telegramClient c) chatID ent (flds @ inheritedFields c)) = Some x \<and>
             (\<forall>i < length pre.
                respond (api w) (length (sent (api w)) + i)
                  (buildMessage (telegramClient c) (pre ! i) ent (flds @ inheritedFields c)) = None) \<and>
             sent a' =
               sent (api w) @
               map (\<lambda>chatID. buildMessage (telegramClient c) chatID ent (flds @ inheritedFields c))
                 (pre @ [chatID]) \<and>
             logged a' = logged (api w) @ [err]"
      using sendLoop_Some[of "telegramClient c" ent "flds @ inheritedFields c"
          "chatIDs (telegramClient c)" "api w" err a']
      by (simp add: sendMessage_def) blast
    with wr show ?thesis by simp
  qed
qed

theorem Write_sync_stops_at_first_failure_witness:
  "\<not> async (sampleCore [WithoutAsyncOpt]) \<and> \<not> queue (sampleCore [WithoutAsyncOpt]) \<and>
   chatIDs (telegramClient (sampleCore [WithoutAsyncOpt])) = [1, 2] \<and>
   (\<exists>w'. Write (sampleCore [WithoutAsyncOpt]) (sampleEntry ErrorLevel) [] quietWorld
            = Some (None, w') \<and>
         map ChatID (sent (api w')) = [1, 2] \<and> logged (api w') = []) \<and>
   (\<exists>w'. Write (sampleCore [WithoutAsyncOpt]) (sampleEntry ErrorLevel) []
            (quietWorld\<lparr>api := failFirstAPI\<rparr>)
            = Some (Some (SendFailed 1 (ApiError ''timeout'')), w') \<and>
         map ChatID (sent (api w')) = [1] \<and>
         logged (api w') = [SendFailed 1 (ApiError ''timeout'')])"
proof -
  let ?c = "sampleCore [WithoutAsyncOpt]"
  let ?e = "sampleEntry ErrorLevel"
  let ?wf = "quietWorld\<lparr>api := failFirstAPI\<rparr>"
  have a: "\<not> async ?c" and q: "\<not> queue ?c"
    and ids: "chatIDs (telegramClient ?c) = [1, 2]"
    by (simp_all add: fixture_defs construct_defs option_defs)
  have i: "inheritedFields ?c = []" "sent (api quietWorld) = []" "logged (api quietWorld) = []"
    "sent (api ?wf) = []" "logged (api ?wf) = []"
    by (simp_all add: fixture_defs construct_defs option_defs)
  have ok: "\<forall>k m. respond (api quietWorld) k m = None"
    by (simp add: fixture_defs)
  have bad: "\<forall>m. respond (api ?wf) 0 m = Some (ApiError ''timeout'')"
    by (simp add: fixture_defs)
  from Write_sync_stops_at_first_failure[OF a q, of ?e "[]" quietWorld]
  obtain r w' where w: "Write ?c ?e [] quietWorld = Some (r, w')"
    and cs: "case r of
        None \<Rightarrow>
          (\<forall>i < length (chatIDs (telegramClient ?c)).
             respond (api quietWorld) (length (sent (api quietWorld)) + i)
               (buildMessage (telegramClient ?c) (chatIDs (telegramClient ?c) ! i) ?e
                  ([] @ inheritedFields ?c)) = None) \<and>
          sent (api w') =
            sent (api quietWorld) @
            map (\<lambda>chatID. buildMessage (telegramClient ?c) chatID ?e ([] @ inheritedFields ?c))
              (chatIDs (telegramClient ?c)) \<and>
          logged (api w') = logged (api quietWorld)
      | Some err \<Rightarrow>
          (\<exists>pre chatID post x.
             chatIDs (telegramClient ?c) = pre @ chatID # post \<and>
             err = SendFailed chatID x \<and>
             respond (api quietWorld) (length (sent (api quietWorld)) + length pre)
               (buildMessage (telegramClient ?c) chatID ?e ([] @ inheritedFields ?c)) = Some x \<and>
             (\<forall>i < length pre.
                respond (api quietWorld) (length (sent (api quietWorld)) + i)
                  (buildMessage (telegramClient ?c) (pre ! i) ?e ([] @ inheritedFields ?c)) = None) \<and>
             sent (api w') =
               sent (api quietWorld) @
               map (\<lambda>chatID. buildMessage (telegramClient ?c) chatID ?e ([] @ inheritedFields ?c))
                 (pre @ [chatID]) \<and>
             logged (api w') = logged (api quietWorld) @ [err])"
    by (elim exE conjE) (rule that)
  have rn: "r = None"
  proof (cases r)
    case None
    then show ?thesis .
  next
    case (Some err)
    with cs ok show ?thesis by auto
  qed
  with cs ids i have "map ChatID (sent (api w')) = [1, 2] \<and> logged (api w') = []"
    by (simp add: buildMessage_ChatID)
  with w rn have A: "\<exists>w'. Write ?c ?e [] quietWorld = Some (None, w') \<and>
      map ChatID (sent (api w')) = [1, 2] \<and> logged (api w') = []"
    by (intro exI[of _ w']) simp
  from Write_sync_stops_at_first_failure[OF a q, of ?e "[]" ?wf]
  obtain r2 w2 where w2: "Write ?c ?e [] ?wf = Some (r2, w2)"
    and cs2: "case r2 of
        None \<Rightarrow>
          (\<forall>i < length (chatIDs (telegramClient ?c)).
             respond (api ?wf) (length (sent (api ?wf)) + i)
               (buildMessage (telegramClient ?c) (chatIDs (telegramClient ?c) ! i) ?e
                  ([] @ inheritedFields ?c)) = None) \<and>
          sent (api w2) =
            sent (api ?wf) @
            map (\<lambda>chatID. buildMessage (telegramClient ?c) chatID ?e ([] @ inheritedFields ?c))
              (chatIDs (telegramClient ?c)) \<and>
          logged (api w2) = logged (api ?wf)
      | Some err \<Rightarrow>
          (\<exists>pre chatID post x.
             chatIDs (telegramClient ?c) = pre @ chatID # post \<and>
             err = SendFailed chatID x \<and>
             respond (api ?wf) (length (sent (api ?wf)) + length pre)
               (buildMessage (telegramClient ?c) chatID ?e ([] @ inheritedFields ?c)) = Some x \<and>
             (\<forall>i < length pre.
                respond (api ?wf) (length (sent (api ?wf)) + i)
                  (buildMessage (telegramClient ?c) (pre ! i) ?e ([] @ inheritedFields ?c)) = None) \<and>
             sent (api w2) =
               sent (api ?wf) @
               map (\<lambda>chatID. buildMessage (telegramClient ?c) chatID ?e ([] @ inheritedFields ?c))
                 (pre @ [chatID]) \<and>
             logged (api w2) = logged (api ?wf) @ [err])"
    by (elim exE conjE) (rule that)
  obtain err where rs: "r2 = Some err"
  proof (cases r2)
    case None
    with cs2 ids i(4) have "respond (api ?wf) 0
        (buildMessage (telegramClient ?c) 1 ?e ([] @ inheritedFields ?c)) = None"
      by auto
    with bad show ?thesis by simp
  next
    case (Some err)
    then show ?thesis by (rule that)
  qed
  with cs2 obtain pre chatID post x where
    sp: "chatIDs (telegramClient ?c) = pre @ chatID # post"
    and er: "err = SendFailed chatID x"
    and rx: "respond (api ?wf) (length (sent (api ?wf)) + length pre)
               (buildMessage (telegramClient ?c) chatID ?e ([] @ inheritedFields ?c)) = Some x"
    and rp: "\<forall>i < length pre.
                respond (api ?wf) (length (sent (api ?wf)) + i)
                  (buildMessage (telegramClient ?c) (pre ! i) ?e ([] @ inheritedFields ?c)) = None"
    and se: "sent (api w2) =
               sent (api ?wf) @
               map (\<lambda>chatID. buildMessage (telegramClient ?c) chatID ?e ([] @ inheritedFields ?c))
                 (pre @ [chatID])"
    and lg: "logged (api w2) = logged (api ?wf) @ [err]"
    by auto
  have pe: "pre = []"
  proof (cases pre)
    case Nil
    then show ?thesis .
  next
    case (Cons p ps)
    with rp i(4) have "respond (api ?wf) 0
        (buildMessage (telegramClient ?c) p ?e ([] @ inheritedFields ?c)) = None"
      by auto
    with bad show ?thesis by simp
  qed
  with sp ids have ci: "chatID = 1" by simp
  from rx pe i(4) bad have "x = ApiError ''timeout''" by simp
  with er ci se lg pe i rs have "r2 = Some (SendFailed 1 (ApiError ''timeout'')) \<and>
      map ChatID (sent (api w2)) = [1] \<and>
      logged (api w2) = [SendFailed 1 (ApiError ''timeout'')]"
    by (simp add: buildMessage_ChatID)
  with w2 have B: "\<exists>w'. Write ?c ?e [] ?wf = Some (Some (SendFailed 1 (ApiError ''timeout'')), w') \<and>
      map ChatID (sent (api w')) = [1] \<and>
      logged (api w') = [SendFailed 1 (ApiError ''timeout'')]"
    by (intro exI[of _ w2]) simp
  from a q ids A B show ?thesis by (intro conjI)
qed

section \<open>Eligibility and Write\<close>

text \<open>
  Claim C7, as stated, fails: \<^verbatim>\<open>Write\<close> has no eligibility check. A synchronous core with
  the default enabler does not enable debug, and \<^verbatim>\<open>Write\<close> of a debug entry sends it to
  both chats.
\<close>

theorem Write_sends_level_not_enabled:
  "\<not> Enabled (sampleCore [WithoutAsyncOpt]) (Level (sampleEntry DebugLevel)) \<and>
   (\<exists>w'. Write (sampleCore [WithoutAsyncOpt]) (sampleEntry DebugLevel) [] quietWorld
          = Some (None, w') \<and>
         map ChatID (sent (api w')) = [1, 2])"
  by (simp add: fixture_defs construct_defs option_defs Write_def sendMessage_def Send_def
      Let_def buildMessage_ChatID Enabled_def NewAtomicLevelAt_def level_defs)

text \<open>
  Claim C7, amended. The eligibility check is made by \<^verbatim>\<open>Check\<close> only: it leaves the
  checked entry as it is when the level is not enabled. \<^verbatim>\<open>Write\<close> makes none: its outcome
  does not depend on the enabler or the stored levels, and for every entry, enabled or
  not, it starts a send goroutine in asynchronous mode, puts the entry on the channel in
  queued mode when the channel has room, and in synchronous mode with at least one chat id
  hands at least one message to the bot API.
\<close>

theorem Write_makes_no_eligibility_check:
  "Write (c\<lparr>enabler := en, levels := ls\<rparr>) ent flds w = Write c ent flds w \<and>
   (\<not> Enabled c (Level ent) \<longrightarrow> Check c ent checked = checked) \<and>
   (async c \<longrightarrow>
      Write c ent flds w =
        Some (None, w\<lparr>spawnedSends :=
                        spawnedSends w @ [(telegramClient c, ent, flds @ inheritedFields c)]\<rparr>)) \<and>
   (\<not> async c \<and> queue c \<and> entriesChan c = Some n \<and> length (chanBuf w) < n \<longrightarrow>
      Write c ent flds w =
        Some (None, w\<lparr>chanBuf := chanBuf w @ [(ent, flds @ inheritedFields c)]\<rparr>)) \<and>
   (\<not> async c \<and> \<not> queue c \<and> chatIDs (telegramClient c) \<noteq> [] \<longrightarrow>
      (\<exists>r w'. Write c ent flds w = Some (r, w') \<and>
               length (sent (api w)) < length (sent (api w'))))"
proof -
  have 1: "Write (c\<lparr>enabler := en, levels := ls\<rparr>) ent flds w = Write c ent flds w"
    by (simp add: Write_def chanSend_def Let_def)
  have 2: "\<not> Enabled c (Level ent) \<longrightarrow> Check c ent checked = checked"
    by (simp add: Check_def)
  have 3: "async c \<longrightarrow>
      Write c ent flds w =
        Some (None, w\<lparr>spawnedSends :=
                        spawnedSends w @ [(telegramClient c, ent, flds @ inheritedFields c)]\<rparr>)"
    by (simp add: Write_def)
  have 4: "\<not> async c \<and> queue c \<and> entriesChan c = Some n \<and> length (chanBuf w) < n \<longrightarrow>
      Write c ent flds w =
        Some (None, w\<lparr>chanBuf := chanBuf w @ [(ent, flds @ inheritedFields c)]\<rparr>)"
    by (simp add: Write_def chanSend_def)
  have 5: "\<not> async c \<and> \<not> queue c \<and> chatIDs (telegramClient c) \<noteq> [] \<longrightarrow>
      (\<exists>r w'. Write c ent flds w = Some (r, w') \<and>
               length (sent (api w)) < length (sent (api w')))"
  proof
    assume a: "\<not> async c \<and> \<not> queue c \<and> chatIDs (telegramClient c) \<noteq> []"
    obtain r a' where s: "sendMessage (telegramClient c) ent (flds @ inheritedFields c) (api w) = (r, a')"
      by (cases "sendMessage (telegramClient c) ent (flds @ inheritedFields c) (api w)")
    from sendLoop_sent_prefix[of "chatIDs (telegramClient c)" "telegramClient c" ent
        "flds @ inheritedFields c" "api w"] s a
    have "length (sent (api w)) < length (sent a')"
      by (auto simp: sendMessage_def)
    moreover from s a have "Write c ent flds w = Some (r, w\<lparr>api := a'\<rparr>)"
      by (cases r) (simp_all add: Write_def)
    ultimately show "\<exists>r w'. Write c ent flds w = Some (r, w') \<and>
               length (sent (api w)) < length (sent (api w'))"
      by simp
  qed
  from 1 2 3 4 5 show ?thesis by blast
qed

theorem Write_makes_no_eligibility_check_witness:
  "\<not> Enabled (sampleCore []) (Level (sampleEntry DebugLevel)) \<and>
   Check (sampleCore []) (sampleEntry DebugLevel) [] = [] \<and>
   async (sampleCore []) \<and>
   Write (sampleCore []) (sampleEntry DebugLevel) [] quietWorld =
     Some (None, quietWorld\<lparr>spawnedSends :=
        [(telegramClient (sampleCore []), sampleEntry DebugLevel, [])]\<rparr>) \<and>
   \<not> async (sampleCore [WithQueue sampleCtx 1000 2]) \<and> queue (sampleCore [WithQueue sampleCtx 1000 2]) \<and>
   entriesChan (sampleCore [WithQueue sampleCtx 1000 2]) = Some 2 \<and>
   Write (sampleCore [WithQueue sampleCtx 1000 2]) (sampleEntry DebugLevel) [] quietWorld =
     Some (None, quietWorld\<lparr>chanBuf := [(sampleEntry DebugLevel, [])]\<rparr>) \<and>
   \<not> async (sampleCore [WithoutAsyncOpt]) \<and> \<not> queue (sampleCore [WithoutAsyncOpt]) \<and>
   (\<exists>r w'. Write (sampleCore [WithoutAsyncOpt]) (sampleEntry DebugLevel) [] quietWorld = Some (r, w') \<and>
            0 < length (sent (api w')))"
proof -
  let ?e = "sampleEntry DebugLevel"
  let ?q = "sampleCore [WithQueue sampleCtx 1000 2]"
  let ?s = "sampleCore [WithoutAsyncOpt]"
  have e: "\<not> Enabled (sampleCore []) (Level ?e)"
    by (simp add: fixture_defs construct_defs Enabled_def NewAtomicLevelAt_def level_defs)
  have a: "async (sampleCore [])"
    by (simp add: fixture_defs construct_defs)
  have q: "\<not> async ?q \<and> queue ?q \<and> entriesChan ?q = Some 2 \<and> length (chanBuf quietWorld) < 2"
    by (simp add: fixture_defs construct_defs option_defs)
  have s: "\<not> async ?s \<and> \<not> queue ?s \<and> chatIDs (telegramClient ?s) \<noteq> []"
    by (simp add: fixture_defs construct_defs option_defs)
  have i: "inheritedFields (sampleCore []) = []" "inheritedFields ?q = []"
    "chanBuf quietWorld = []" "spawnedSends quietWorld = []" "sent (api quietWorld) = []"
    by (simp_all add: fixture_defs construct_defs option_defs)
  from Write_makes_no_eligibility_check[where c="sampleCore []" and ent="?e" and flds="[]" and w=quietWorld and checked="[]"] e a i
  have A: "Check (sampleCore []) ?e [] = [] \<and>
      Write (sampleCore []) ?e [] quietWorld =
      Some (None, quietWorld\<lparr>spawnedSends := [(telegramClient (sampleCore []), ?e, [])]\<rparr>)"
    by simp
  from Write_makes_no_eligibility_check[where c="?q" and ent="?e" and flds="[]" and w=quietWorld and n=2] q i
  have B: "Write ?q ?e [] quietWorld = Some (None, quietWorld\<lparr>chanBuf := [(?e, [])]\<rparr>)"
    by simp
  from Write_makes_no_eligibility_check[where c="?s" and ent="?e" and flds="[]" and w=quietWorld] s i
  have C: "\<exists>r w'. Write ?s ?e [] quietWorld = Some (r, w') \<and> 0 < length (sent (api w'))"
    by simp
  from e a q s A B C show ?thesis by simp
qed

section \<open>Construction errors\<close>

lemma Write_error_is_send_failure:
  assumes "Write c ent flds w = Some (Some err, w')"
  shows "\<exists>chatID x. err = SendFailed chatID x"
proof -
  from assms obtain a' where
    "sendMessage (telegramClient c) ent (flds @ inheritedFields c) (api w) = (Some err, a')"
    by (auto simp: Write_def Let_def split: if_splits option.splits prod.splits)
  from sendLoop_Some[OF this[unfolded sendMessage_def]] show ?thesis by blast
qed

lemma Sync_returns_nil: "Sync c w = Some (r, w') \<Longrightarrow> r = None"
  by (auto simp: Sync_def split: if_splits option.splits)

lemma NewTelegramCore_Some:
  assumes "fst (NewTelegramCore tok ids opts w) = (Some c, re)"
  shows "\<exists>client w'. tok \<noteq> '''' \<and> ids \<noteq> [] \<and>
     newTelegramClient tok ids w = (Some client, None) \<and>
     applyOpts opts
       \<lparr>inheritedFields = [], telegramClient = client,
        enabler = NewAtomicLevelAt defaultLevel, levels = [],
        async = defaultAsyncOpt, queue = defaultQueueOpt,
        intervalQueue = 0, entriesChan = None\<rparr> w = ((Some c, re), w')"
  using assms
  by (cases "applyOpts opts
       \<lparr>inheritedFields = [], telegramClient = the (fst (newTelegramClient tok ids w)),
        enabler = NewAtomicLevelAt defaultLevel, levels = [],
        async = defaultAsyncOpt, queue = defaultQueueOpt,
        intervalQueue = 0, entriesChan = None\<rparr> w")
     (auto simp: NewTelegramCore_def split: if_splits prod.splits option.splits)

lemma NewTelegramCore_no_partial:
  "snd (fst (NewTelegramCore tok ids opts w)) \<noteq> None \<Longrightarrow>
   fst (fst (NewTelegramCore tok ids opts w)) = None"
proof -
  assume e: "snd (fst (NewTelegramCore tok ids opts w)) \<noteq> None"
  obtain rc re where r: "fst (NewTelegramCore tok ids opts w) = (rc, re)"
    by (cases "fst (NewTelegramCore tok ids opts w)")
  show ?thesis
  proof (cases rc)
    case None
    with r show ?thesis by simp
  next
    case (Some c)
    with r NewTelegramCore_Some[of tok ids opts w c re] obtain c0 w' where
      "applyOpts opts c0 w = ((Some c, re), w')" by blast
    from applyOpts_result[OF this] e r show ?thesis by simp
  qed
qed

text \<open>
  Claim C6, as stated, fails in its third scenario: construction succeeds, in queued mode,
  when \<^verbatim>\<open>WithQueue\<close> is applied to the asynchronous default, and also when
  \<^verbatim>\<open>WithoutAsyncOpt\<close> is applied before \<^verbatim>\<open>WithQueue\<close>.
\<close>

theorem NewTelegramCore_accepts_queue_on_async_default:
  "(\<exists>c w'. NewTelegramCore ''token'' [1, 2] [WithQueue sampleCtx 1000 10] quietWorld
            = ((Some c, None), w') \<and> queue c \<and> \<not> async c) \<and>
   (\<exists>c w'. NewTelegramCore ''token'' [1, 2] [WithoutAsyncOpt, WithQueue sampleCtx 1000 10] quietWorld
            = ((Some c, None), w') \<and> queue c \<and> \<not> async c)"
  by (simp add: fixture_defs construct_defs option_defs)

text \<open>
  Claim C6, amended. \<^verbatim>\<open>NewTelegramCore\<close> returns \<^verbatim>\<open>ErrBotAccessToken\<close> for the empty
  token and \<^verbatim>\<open>ErrChatIDs\<close> for a non-empty token with no chat id; it returns
  \<^verbatim>\<open>ErrAsyncOpt\<close> when \<^verbatim>\<open>WithoutAsyncOpt\<close> is applied after options that construct a
  core in queued mode; and whenever it returns an error it returns no core. Applying
  \<^verbatim>\<open>WithQueue\<close> to the asynchronous default, with a positive interval and a queue size
  that is not negative and within what the run-time system allocates, is no error. None of these errors comes
  later: an error that \<^verbatim>\<open>Write\<close> returns is a wrapped send failure, and \<^verbatim>\<open>Sync\<close>
  returns nil.
\<close>

theorem NewTelegramCore_configuration_errors:
  "fst (NewTelegramCore '''' ids opts w) = (None, Some ErrBotAccessToken) \<and>
   (tok \<noteq> '''' \<longrightarrow> fst (NewTelegramCore tok [] opts w) = (None, Some ErrChatIDs)) \<and>
   (fst (NewTelegramCore tok ids pre w) = (Some cq, None) \<and> queue cq \<longrightarrow>
      fst (NewTelegramCore tok ids (pre @ WithoutAsyncOpt # post) w) = (None, Some ErrAsyncOpt)) \<and>
   (snd (fst (NewTelegramCore tok ids opts w)) \<noteq> None \<longrightarrow>
      fst (fst (NewTelegramCore tok ids opts w)) = None) \<and>
   (tok \<noteq> '''' \<and> ids \<noteq> [] \<and> newBotAPI w tok = None \<and> 0 < sint interval \<and>
    0 \<le> sint queueSize \<and> sint queueSize \<le> int (maxChanBuf w) \<longrightarrow>
      (\<exists>c. fst (NewTelegramCore tok ids [WithQueue ctx interval queueSize] w) = (Some c, None) \<and>
           queue c \<and> \<not> async c \<and> 0 < sint (intervalQueue c) \<and>
           entriesChan c = Some (nat (sint queueSize)))) \<and>
   (Write c ent flds wa = Some (Some err, wb) \<longrightarrow> (\<exists>chatID x. err = SendFailed chatID x)) \<and>
   (Sync c wa = Some (r, wb) \<longrightarrow> r = None)"
proof -
  have 1: "fst (NewTelegramCore '''' ids opts w) = (None, Some ErrBotAccessToken)"
    by (simp add: NewTelegramCore_def)
  have 2: "tok \<noteq> '''' \<longrightarrow> fst (NewTelegramCore tok [] opts w) = (None, Some ErrChatIDs)"
    by (simp add: NewTelegramCore_def)
  have 3: "fst (NewTelegramCore tok ids pre w) = (Some cq, None) \<and> queue cq \<longrightarrow>
      fst (NewTelegramCore tok ids (pre @ WithoutAsyncOpt # post) w) = (None, Some ErrAsyncOpt)"
  proof
    assume a: "fst (NewTelegramCore tok ids pre w) = (Some cq, None) \<and> queue cq"
    with NewTelegramCore_Some[of tok ids pre w cq None] obtain client w' where
      n: "tok \<noteq> ''''" "ids \<noteq> []" "newTelegramClient tok ids w = (Some client, None)"
      and ap: "applyOpts pre
       \<lparr>inheritedFields = [], telegramClient = client,
        enabler = NewAtomicLevelAt defaultLevel, levels = [],
        async = defaultAsyncOpt, queue = defaultQueueOpt,
        intervalQueue = 0, entriesChan = None\<rparr> w = ((Some cq, None), w')"
      by blast
    from a have "applyOpts (WithoutAsyncOpt # post) cq w' = ((None, Some ErrAsyncOpt), w')"
      by (simp add: WithoutAsyncOpt_def)
    with n ap show
      "fst (NewTelegramCore tok ids (pre @ WithoutAsyncOpt # post) w) = (None, Some ErrAsyncOpt)"
      by (simp add: NewTelegramCore_def applyOpts_append)
  qed
  have 4: "snd (fst (NewTelegramCore tok ids opts w)) \<noteq> None \<longrightarrow>
      fst (fst (NewTelegramCore tok ids opts w)) = None"
    using NewTelegramCore_no_partial by blast
  have 5: "tok \<noteq> '''' \<and> ids \<noteq> [] \<and> newBotAPI w tok = None \<and> 0 < sint interval \<and>
    0 \<le> sint queueSize \<and> sint queueSize \<le> int (maxChanBuf w) \<longrightarrow>
      (\<exists>c. fst (NewTelegramCore tok ids [WithQueue ctx interval queueSize] w) = (Some c, None) \<and>
           queue c \<and> \<not> async c \<and> 0 < sint (intervalQueue c) \<and>
           entriesChan c = Some (nat (sint queueSize)))"
    by (simp add: construct_defs WithQueue_def Let_def)
  have 6: "Write c ent flds wa = Some (Some err, wb) \<longrightarrow> (\<exists>chatID x. err = SendFailed chatID x)"
    using Write_error_is_send_failure by blast
  have 7: "Sync c wa = Some (r, wb) \<longrightarrow> r = None"
    using Sync_returns_nil by blast
  from 1 2 3 4 5 6 7 show ?thesis by blast
qed

theorem NewTelegramCore_configuration_errors_witness:
  "fst (NewTelegramCore '''' [1, 2] [] quietWorld) = (None, Some ErrBotAccessToken) \<and>
   fst (NewTelegramCore ''token'' [] [] quietWorld) = (None, Some ErrChatIDs) \<and>
   fst (NewTelegramCore ''token'' [1, 2] [WithQueue sampleCtx 1000 10] quietWorld)
     = (Some (sampleCore [WithQueue sampleCtx 1000 10]), None) \<and>
   queue (sampleCore [WithQueue sampleCtx 1000 10]) \<and>
   fst (NewTelegramCore ''token'' [1, 2]
          ([WithQueue sampleCtx 1000 10] @ WithoutAsyncOpt # [WithLevel InfoLevel]) quietWorld)
     = (None, Some ErrAsyncOpt) \<and>
   snd (fst (NewTelegramCore ''token'' [1, 2] [WithQueue sampleCtx 1000 (- 1)] quietWorld)) \<noteq> None \<and>
   fst (fst (NewTelegramCore ''token'' [1, 2] [WithQueue sampleCtx 1000 (- 1)] quietWorld)) = None \<and>
   newBotAPI quietWorld ''token'' = None \<and> 0 < sint (1000 :: 64 word) \<and>
   0 \<le> sint (10 :: 64 word) \<and> sint (10 :: 64 word) \<le> int (maxChanBuf quietWorld) \<and>
   (\<exists>c. fst (NewTelegramCore ''token'' [1, 2] [WithQueue sampleCtx 1000 10] quietWorld) = (Some c, None) \<and>
        queue c \<and> \<not> async c \<and> 0 < sint (intervalQueue c) \<and> entriesChan c = Some 10) \<and>
   (\<exists>wb. Write (sampleCore [WithoutAsyncOpt]) (sampleEntry ErrorLevel) []
            (quietWorld\<lparr>api := failFirstAPI\<rparr>)
          = Some (Some (SendFailed 1 (ApiError ''timeout'')), wb)) \<and>
   Sync (sampleCore [WithQueue sampleCtx 1000 10]) quietWorld = Some (None, quietWorld)"
proof -
  let ?q = "sampleCore [WithQueue sampleCtx 1000 10]"
  let ?bad = "NewTelegramCore ''token'' [1, 2] [WithQueue sampleCtx 1000 (- 1)] quietWorld"
  have t: "''token'' \<noteq> ''''" by simp
  have q: "fst (NewTelegramCore ''token'' [1, 2] [WithQueue sampleCtx 1000 10] quietWorld)
     = (Some ?q, None) \<and> queue ?q"
    by (simp add: fixture_defs construct_defs option_defs)
  have e: "snd (fst ?bad) \<noteq> None"
    by (simp add: fixture_defs construct_defs option_defs)
  have h5: "newBotAPI quietWorld ''token'' = None \<and> 0 < sint (1000 :: 64 word) \<and>
      0 \<le> sint (10 :: 64 word) \<and> sint (10 :: 64 word) \<le> int (maxChanBuf quietWorld)"
    by (simp add: fixture_defs)
  have n: "[1, 2] \<noteq> ([] :: 64 word list)" by simp
  have wr: "\<exists>wb. Write (sampleCore [WithoutAsyncOpt]) (sampleEntry ErrorLevel) []
            (quietWorld\<lparr>api := failFirstAPI\<rparr>)
          = Some (Some (SendFailed 1 (ApiError ''timeout'')), wb)"
    by (simp add: fixture_defs construct_defs option_defs Write_def sendMessage_def Send_def Let_def)
  have sy: "Sync ?q quietWorld = Some (None, quietWorld)"
    by (subst Sync_def, subst handleNewQueueEntries.simps)
       (simp add: fixture_defs construct_defs option_defs chanLen_def)
  note T = NewTelegramCore_configuration_errors[where tok="''token''" and ids="[1, 2]"
      and opts="[]" and w=quietWorld and pre="[WithQueue sampleCtx 1000 10]"
      and cq="?q" and post="[WithLevel InfoLevel]"]
  from T t q have A: "fst (NewTelegramCore '''' [1, 2] [] quietWorld) = (None, Some ErrBotAccessToken) \<and>
      fst (NewTelegramCore ''token'' [] [] quietWorld) = (None, Some ErrChatIDs) \<and>
      fst (NewTelegramCore ''token'' [1, 2]
          ([WithQueue sampleCtx 1000 10] @ WithoutAsyncOpt # [WithLevel InfoLevel]) quietWorld)
        = (None, Some ErrAsyncOpt)"
    by simp
  from NewTelegramCore_configuration_errors[where tok="''token''" and ids="[1, 2]"
      and opts="[WithQueue sampleCtx 1000 (- 1)]" and w=quietWorld] e
  have B: "fst (fst ?bad) = None" by simp
  from NewTelegramCore_configuration_errors[where tok="''token''" and ids="[1, 2]"
      and w=quietWorld and ctx=sampleCtx and interval=1000 and queueSize=10] t n h5
  have D: "\<exists>c. fst (NewTelegramCore ''token'' [1, 2] [WithQueue sampleCtx 1000 10] quietWorld) = (Some c, None) \<and>
        queue c \<and> \<not> async c \<and> 0 < sint (intervalQueue c) \<and> entriesChan c = Some 10"
    by simp
  from A q e B h5 D wr sy show ?thesis by (intro conjI) simp_all
qed

section \<open>Queued mode: enqueue, then flush\<close>

lemma WriteAll_queue:
  assumes "queue c" and "\<not> async c" and "entriesChan c = Some n"
  shows "length (chanBuf w) + length es \<le> n \<Longrightarrow>
     WriteAll c es w =
       Some (w\<lparr>chanBuf := chanBuf w @ map (\<lambda>(ent, flds). (ent, flds @ inheritedFields c)) es\<rparr>)"
proof (induction es arbitrary: w)
  case Nil
  then show ?case by simp
next
  case (Cons e es)
  obtain ent flds where e: "e = (ent, flds)" by (cases e)
  let ?w1 = "w\<lparr>chanBuf := chanBuf w @ [(ent, flds @ inheritedFields c)]\<rparr>"
  from Cons.prems assms have "Write c ent flds w = Some (None, ?w1)"
    by (simp add: Write_def chanSend_def)
  moreover from Cons.prems have "length (chanBuf ?w1) + length es \<le> n" by simp
  from Cons.IH[OF this] have "WriteAll c es ?w1 =
     Some (?w1\<lparr>chanBuf := chanBuf ?w1 @ map (\<lambda>(ent, flds). (ent, flds @ inheritedFields c)) es\<rparr>)" .
  ultimately show ?case by (simp add: e)
qed

lemma handleNewQueueEntries_drains:
  assumes "entriesChan h = Some n"
  shows "chanBuf w = q \<Longrightarrow>
     handleNewQueueEntries h w =
       Some (w\<lparr>chanBuf := [],
               api := foldl (\<lambda>a (ent, flds). snd (sendMessage (telegramClient h) ent flds a))
                        (api w) q\<rparr>)"
proof (induction q arbitrary: w)
  case Nil
  then show ?case using assms
    by (subst handleNewQueueEntries.simps) (simp add: chanLen_def)
next
  case (Cons ce rest)
  obtain ent flds where ce: "ce = (ent, flds)" by (cases ce)
  let ?w1 = "w\<lparr>chanBuf := rest, api := snd (sendMessage (telegramClient h) ent flds (api w))\<rparr>"
  have "chanBuf ?w1 = rest" by simp
  from Cons.IH[OF this] have ih: "handleNewQueueEntries h ?w1 =
       Some (?w1\<lparr>chanBuf := [],
               api := foldl (\<lambda>a (ent, flds). snd (sendMessage (telegramClient h) ent flds a))
                        (api ?w1) rest\<rparr>)" .
  have "handleNewQueueEntries h w = handleNewQueueEntries h ?w1"
    using Cons.prems assms
    by (subst handleNewQueueEntries.simps) (simp add: chanLen_def chanRecv_def ce)
  with ih show ?case by (simp add: ce)
qed

lemma handleNewQueueEntries_returns: "\<exists>w'. handleNewQueueEntries h w = Some w'"
proof (cases "entriesChan h")
  case None
  then show ?thesis
    by (subst handleNewQueueEntries.simps) (simp add: chanLen_def)
next
  case (Some n)
  from handleNewQueueEntries_drains[OF this refl] show ?thesis by blast
qed

lemma sendMessage_sent_bounds:
  "length (sent a) \<le> length (sent (snd (sendMessage c e f a))) \<and>
   length (sent (snd (sendMessage c e f a))) \<le> length (sent a) + length (chatIDs c) \<and>
   (chatIDs c \<noteq> [] \<longrightarrow> length (sent a) < length (sent (snd (sendMessage c e f a))))"
  using sendLoop_sent_prefix[of "chatIDs c" c e f a] by (auto simp: sendMessage_def)

lemma foldl_sendMessage_bounds:
  "length (sent (foldl (\<lambda>a (ent, flds). snd (sendMessage c ent (g flds) a)) a es))
     \<le> length (sent a) + length es * length (chatIDs c) \<and>
   (chatIDs c \<noteq> [] \<longrightarrow>
      length (sent a) + length es
        \<le> length (sent (foldl (\<lambda>a (ent, flds). snd (sendMessage c ent (g flds) a)) a es)))"
proof (induction es arbitrary: a)
  case Nil
  then show ?case by simp
next
  case (Cons e es)
  obtain ent flds where e: "e = (ent, flds)" by (cases e)
  let ?a1 = "snd (sendMessage c ent (g flds) a)"
  from Cons.IH[of ?a1] sendMessage_sent_bounds[of a c ent "g flds"]
  show ?case by (auto simp: e)
qed

lemma sendLoop_all_succeed:
  "\<forall>k m. respond a k m = None \<Longrightarrow>
   sendLoop c e f ids a = (None, a\<lparr>sent := sent a @ map (\<lambda>chatID. buildMessage c chatID e f) ids\<rparr>)"
  by (induction ids arbitrary: a) (auto simp: Send_def)

lemma foldl_sendMessage_all_succeed:
  "\<forall>k m. respond a k m = None \<Longrightarrow>
   foldl (\<lambda>a (ent, flds). snd (sendMessage c ent (g flds) a)) a es =
     a\<lparr>sent := sent a @
         concat (map (\<lambda>(ent, flds). map (\<lambda>chatID. buildMessage c chatID ent (g flds)) (chatIDs c)) es)\<rparr>"
proof (induction es arbitrary: a)
  case Nil
  then show ?case by simp
next
  case (Cons e es)
  obtain ent flds where e: "e = (ent, flds)" by (cases e)
  let ?a1 = "a\<lparr>sent := sent a @ map (\<lambda>chatID. buildMessage c chatID ent (g flds)) (chatIDs c)\<rparr>"
  from Cons.prems have s: "snd (sendMessage c ent (g flds) a) = ?a1"
    by (simp add: sendMessage_def sendLoop_all_succeed)
  from Cons.prems have "\<forall>k m. respond ?a1 k m = None" by simp
  from Cons.IH[OF this] s show ?case by (simp add: e)
qed

lemma buildMessage_Text: "Text (buildMessage c chatID e flds) = formatMessage c e flds"
  by (auto simp: buildMessage_def NewMessage_def Let_def split: option.splits)

lemma foldl_map_entries:
  "foldl (\<lambda>a (ent, flds). snd (sendMessage c ent flds a)) a
     (map (\<lambda>(ent, flds). (ent, flds @ inh)) es) =
   foldl (\<lambda>a (ent, flds). snd (sendMessage c ent (flds @ inh) a)) a es"
  by (induction es arbitrary: a) (auto split: prod.splits)

text \<open>
  While no other goroutine receives from the channel (the drain loop waits in
  \<^verbatim>\<open>select\<close> throughout): from an empty channel with room for them, the \<open>N\<close> entries
  are enqueued by \<open>N\<close> calls of \<^verbatim>\<open>Write\<close> that return; \<^verbatim>\<open>Sync\<close> then returns nil,
  leaves the channel empty, and has called \<^verbatim>\<open>sendMessage\<close> once for each entry, in
  the order of enqueueing. Outside queued mode \<^verbatim>\<open>Sync\<close> returns nil and changes nothing.
\<close>

lemma Sync_alone_sends_each_queued_entry_once:
  assumes "queue c" and "\<not> async c" and "entriesChan c = Some n"
    and "chanBuf w = []" and "length es \<le> n"
  shows "(\<exists>w1 w2.
      WriteAll c es w = Some w1 \<and> length (chanBuf w1) = length es \<and>
      Sync c w1 = Some (None, w2) \<and> chanBuf w2 = [] \<and>
      api w2 = foldl (\<lambda>a (ent, flds).
                 snd (sendMessage (telegramClient c) ent (flds @ inheritedFields c) a)) (api w) es \<and>
      length (sent (api w2)) \<le> length (sent (api w)) + length es * length (chatIDs (telegramClient c)) \<and>
      (chatIDs (telegramClient c) \<noteq> [] \<longrightarrow> length (sent (api w)) + length es \<le> length (sent (api w2))) \<and>
      ((\<forall>k m. respond (api w) k m = None) \<longrightarrow>
         sent (api w2) = sent (api w) @
           concat (map (\<lambda>(ent, flds).
               map (\<lambda>chatID. buildMessage (telegramClient c) chatID ent (flds @ inheritedFields c))
                 (chatIDs (telegramClient c))) es))) \<and>
    (\<not> queue c' \<longrightarrow> Sync c' w' = Some (None, w'))"
proof -
  let ?q = "map (\<lambda>(ent, flds). (ent, flds @ inheritedFields c)) es"
  let ?w1 = "w\<lparr>chanBuf := ?q\<rparr>"
  let ?f = "\<lambda>a (ent, flds). snd (sendMessage (telegramClient c) ent (flds @ inheritedFields c) a)"
  let ?a2 = "foldl ?f (api w) es"
  let ?w2 = "?w1\<lparr>chanBuf := [], api := ?a2\<rparr>"
  from assms(4,5) have "length (chanBuf w) + length es \<le> n" by simp
  from WriteAll_queue[OF assms(1-3) this] assms(4)
  have wa: "WriteAll c es w = Some ?w1" by simp
  have "handleNewQueueEntries c ?w1 = Some ?w2"
    using handleNewQueueEntries_drains[OF assms(3), of ?w1 ?q]
    by (simp add: foldl_map_entries)
  with assms(1) have sy: "Sync c ?w1 = Some (None, ?w2)"
    by (simp add: Sync_def)
  have b: "length (sent ?a2) \<le> length (sent (api w)) + length es * length (chatIDs (telegramClient c)) \<and>
      (chatIDs (telegramClient c) \<noteq> [] \<longrightarrow> length (sent (api w)) + length es \<le> length (sent ?a2))"
    using foldl_sendMessage_bounds[of "telegramClient c" "\<lambda>flds. flds @ inheritedFields c" "api w" es]
    by simp
  have s: "(\<forall>k m. respond (api w) k m = None) \<longrightarrow>
         sent ?a2 = sent (api w) @
           concat (map (\<lambda>(ent, flds).
               map (\<lambda>chatID. buildMessage (telegramClient c) chatID ent (flds @ inheritedFields c))
                 (chatIDs (telegramClient c))) es)"
    using foldl_sendMessage_all_succeed[of "api w" "telegramClient c"
        "\<lambda>flds. flds @ inheritedFields c" es]
    by simp
  have first: "\<exists>w1 w2.
      WriteAll c es w = Some w1 \<and> length (chanBuf w1) = length es \<and>
      Sync c w1 = Some (None, w2) \<and> chanBuf w2 = [] \<and>
      api w2 = foldl ?f (api w) es \<and>
      length (sent (api w2)) \<le> length (sent (api w)) + length es * length (chatIDs (telegramClient c)) \<and>
      (chatIDs (telegramClient c) \<noteq> [] \<longrightarrow> length (sent (api w)) + length es \<le> length (sent (api w2))) \<and>
      ((\<forall>k m. respond (api w) k m = None) \<longrightarrow>
         sent (api w2) = sent (api w) @
           concat (map (\<lambda>(ent, flds).
               map (\<lambda>chatID. buildMessage (telegramClient c) chatID ent (flds @ inheritedFields c))
                 (chatIDs (telegramClient c))) es))"
    using wa sy b s
    by (intro exI[of _ ?w1] exI[of _ ?w2]) simp
  have "\<not> queue c' \<longrightarrow> Sync c' w' = Some (None, w')"
    by (simp add: Sync_def)
  with first show ?thesis by blast
qed

text \<open>
  With ticks of the drain loop between the calls of \<^verbatim>\<open>Write\<close>, a final drain still
  leaves the bot API in the state of one \<^verbatim>\<open>sendMessage\<close> for each entry, in the order of
  enqueueing: the ticks only move some of the calls ahead of the final drain.
\<close>

lemma runActions_then_drain:
  assumes "queue c" and "\<not> async c" and "entriesChan c = Some n"
  shows "length (chanBuf w) + length (loggedEntries c acts) \<le> n \<Longrightarrow>
     \<exists>w1. runActions c acts w = Some w1 \<and>
       handleNewQueueEntries c w1 =
         Some (w1\<lparr>chanBuf := [],
                 api := foldl (\<lambda>a (ent, flds). snd (sendMessage (telegramClient c) ent flds a))
                          (api w) (chanBuf w @ loggedEntries c acts)\<rparr>)"
proof (induction acts arbitrary: w)
  case Nil
  from handleNewQueueEntries_drains[OF assms(3) refl, of w] show ?case by simp
next
  case (Cons act acts)
  show ?case
  proof (cases act)
    case (Log ent flds)
    let ?w1 = "w\<lparr>chanBuf := chanBuf w @ [(ent, flds @ inheritedFields c)]\<rparr>"
    from Cons.prems Log assms have wr: "Write c ent flds w = Some (None, ?w1)"
      by (simp add: Write_def chanSend_def)
    from Cons.prems Log have "length (chanBuf ?w1) + length (loggedEntries c acts) \<le> n"
      by simp
    from Cons.IH[OF this] wr Log show ?thesis by simp
  next
    case Tick
    let ?w1 = "w\<lparr>chanBuf := [],
        api := foldl (\<lambda>a (ent, flds). snd (sendMessage (telegramClient c) ent flds a))
                 (api w) (chanBuf w)\<rparr>"
    from handleNewQueueEntries_drains[OF assms(3) refl, of w]
    have dr: "handleNewQueueEntries c w = Some ?w1" .
    from Cons.prems Tick have "length (chanBuf ?w1) + length (loggedEntries c acts) \<le> n"
      by simp
    from Cons.IH[OF this] dr Tick show ?thesis by simp
  qed
qed

section \<open>Derived handles and the parent's fields\<close>

lemma goAppend_view:
  assumes "wf_slice st s" and "goAppend grow s xs st = (s', st')"
  shows "view st' s' = view st s @ xs \<and> wf_slice st' s' \<and> length st \<le> length st'"
proof (cases "len s + length xs \<le> cap s")
  case True
  let ?a = "st ! arr s"
  let ?a' = "take (off s + len s) ?a @ xs @ drop (off s + (len s + length xs)) ?a"
  from assms(1) have b: "arr s < length st" "off s + cap s \<le> length ?a" "len s \<le> cap s"
    by (simp_all add: wf_slice_def)
  from True assms(2) have r: "s' = s\<lparr>len := len s + length xs\<rparr>" "st' = st[arr s := ?a']"
    by (simp_all add: goAppend_def Let_def)
  have la: "length ?a' = length ?a"
    using b True by simp
  have l1: "length (take (off s + len s) ?a) = off s + len s"
    using b True by simp
  have l2: "length (take (len s) (drop (off s) ?a)) = len s"
    using b True by simp
  have "drop (off s) ?a' =
      drop (off s) (take (off s + len s) ?a) @ xs @ drop (off s + (len s + length xs)) ?a"
    using l1 by simp
  also have "drop (off s) (take (off s + len s) ?a) = take (len s) (drop (off s) ?a)"
    by (simp add: drop_take)
  finally have "take (len s + length xs) (drop (off s) ?a') = take (len s) (drop (off s) ?a) @ xs"
    using l2 by simp
  with r b la True show ?thesis
    by (simp add: view_def wf_slice_def)
next
  case False
  let ?n = "len s + length xs"
  let ?c = "max ?n (grow (cap s) ?n)"
  let ?b = "view st s @ xs @ replicate (?c - ?n) zeroField"
  from assms(1) have b: "arr s < length st" "off s + cap s \<le> length (st ! arr s)" "len s \<le> cap s"
    by (simp_all add: wf_slice_def)
  from False assms(2) have r: "s' = \<lparr>arr = length st, off = 0, len = ?n, cap = ?c\<rparr>"
    "st' = st @ [?b]"
    by (simp_all add: goAppend_def Let_def)
  have lv: "length (view st s) = len s"
    using b by (simp add: view_def)
  with r show ?thesis
    by (simp add: view_def wf_slice_def lv)
qed

lemma goAppend_shape:
  assumes "goAppend grow s xs st = (s', st')"
  shows "(arr s' = arr s \<and> off s' = off s \<and> len s \<le> len s') \<or> arr s' = length st"
  using assms by (auto simp: goAppend_def Let_def split: if_splits)

lemma take_drop_agree:
  assumes "take k a' = take k a" and "j + l \<le> k"
  shows "take l (drop j a') = take l (drop j a)"
proof -
  have "take l (drop j a') = drop j (take (j + l) (take k a'))"
    using assms(2) by (simp add: drop_take min_def)
  also have "\<dots> = drop j (take (j + l) (take k a))"
    by (simp add: assms(1))
  also have "\<dots> = take l (drop j a)"
    using assms(2) by (simp add: drop_take min_def)
  finally show ?thesis .
qed

lemma goAppend_frame:
  assumes "wf_slice st s" and "goAppend grow s xs st = (s', st')"
    and "arr q < length st"
    and "arr q \<noteq> arr s \<or> off q + len q \<le> off s + len s"
  shows "view st' q = view st q"
proof (cases "len s + length xs \<le> cap s")
  case True
  let ?a = "st ! arr s"
  let ?a' = "take (off s + len s) ?a @ xs @ drop (off s + (len s + length xs)) ?a"
  from assms(1) have b: "arr s < length st" "off s + cap s \<le> length ?a" "len s \<le> cap s"
    by (simp_all add: wf_slice_def)
  from True assms(2) have r: "st' = st[arr s := ?a']"
    by (simp add: goAppend_def Let_def)
  show ?thesis
  proof (cases "arr q = arr s")
    case False
    with r show ?thesis by (simp add: view_def)
  next
    case same: True
    with assms(4) have le: "off q + len q \<le> off s + len s" by simp
    have "take (off s + len s) ?a' = take (off s + len s) ?a"
      using b True by simp
    from take_drop_agree[OF this le] r same b show ?thesis
      by (simp add: view_def)
  qed
next
  case False
  with assms(2) have "\<exists>b. st' = st @ [b]"
    by (auto simp: goAppend_def Let_def)
  with assms(3) show ?thesis
    by (auto simp: view_def nth_append)
qed

text \<open>
  Claim C3. A handle is derived from a parent with the fields \<open>f1\<close>, a second one from the
  first with \<open>f2\<close>, and an entry with the per-call fields \<open>flds\<close> is written through the
  second. The fields the entry resolves to are the per-call fields, then the parent's
  inherited fields (none for a core as constructed), then \<open>f1\<close>, then \<open>f2\<close>. The sequence
  seen through the parent's slice is the same after each derivation, and the one seen
  through the first handle's slice is the same after the second derivation, also when
  \<^verbatim>\<open>append\<close> wrote into a shared backing array. The second handle's sequence is the one
  \<^verbatim>\<open>With\<close> computes on contents.
\<close>

theorem With_twice_resolves_fields_parent_unchanged:
  assumes "wf_slice st p"
    and "With_inheritedFields grow p f1 st = (i1, st1)"
    and "With_inheritedFields grow i1 f2 st1 = (i2, st2)"
    and "wf_slice st2 flds"
    and "Write_entryFields grow flds i2 st2 = (ef, st3)"
  shows "view st3 ef = view st2 flds @ view st p @ view st f1 @ view st1 f2 \<and>
     view st1 p = view st p \<and> view st2 p = view st p \<and> view st2 i1 = view st1 i1 \<and>
     view st2 i2 =
       inheritedFields (With (With (c\<lparr>inheritedFields := view st p\<rparr>) (view st f1)) (view st1 f2))"
proof -
  note a1 = assms(2)[unfolded With_inheritedFields_def]
  note a2 = assms(3)[unfolded With_inheritedFields_def]
  note a3 = assms(5)[unfolded Write_entryFields_def]
  from goAppend_view[OF assms(1) a1]
  have v1: "view st1 i1 = view st p @ view st f1" and w1: "wf_slice st1 i1"
    and l1: "length st \<le> length st1"
    by simp_all
  from goAppend_view[OF w1 a2]
  have v2: "view st2 i2 = view st1 i1 @ view st1 f2" and w2: "wf_slice st2 i2"
    by simp_all
  from goAppend_view[OF assms(4) a3]
  have v3: "view st3 ef = view st2 flds @ view st2 i2"
    by simp
  from assms(1) have ap: "arr p < length st"
    by (simp add: wf_slice_def)
  have p1: "view st1 p = view st p"
    by (rule goAppend_frame[OF assms(1) a1 ap]) simp
  from w1 have ai: "arr i1 < length st1"
    by (simp add: wf_slice_def)
  from ap l1 have ap1: "arr p < length st1" by simp
  have sh: "arr p \<noteq> arr i1 \<or> off p + len p \<le> off i1 + len i1"
  proof (rule disjE[OF goAppend_shape[OF a1]])
    assume "arr i1 = arr p \<and> off i1 = off p \<and> len p \<le> len i1"
    then have "off p + len p \<le> off i1 + len i1" by linarith
    then show ?thesis ..
  next
    assume "arr i1 = length st"
    with ap have "arr p \<noteq> arr i1" by linarith
    then show ?thesis ..
  qed
  from goAppend_frame[OF w1 a2 ap1 sh] p1
  have p2: "view st2 p = view st p" by simp
  have i2: "view st2 i1 = view st1 i1"
    by (rule goAppend_frame[OF w1 a2 ai]) simp
  have "inheritedFields (With (With (c\<lparr>inheritedFields := view st p\<rparr>) (view st f1)) (view st1 f2))
      = view st p @ view st f1 @ view st1 f2"
    by (simp add: With_def)
  with v1 v2 v3 p1 p2 i2 show ?thesis by simp
qed

theorem With_twice_resolves_fields_parent_unchanged_witness:
  "wf_slice sampleStore (sampleSlice 0 0) \<and>
   (\<exists>i1 st1 i2 st2 ef st3.
      With_inheritedFields (\<lambda>c n. 4) (sampleSlice 0 0) (sampleSlice 1 1) sampleStore = (i1, st1) \<and>
      With_inheritedFields (\<lambda>c n. 4) i1 (sampleSlice 2 1) st1 = (i2, st2) \<and>
      arr i2 = arr i1 \<and>
      wf_slice st2 (sampleSlice 3 1) \<and>
      Write_entryFields (\<lambda>c n. 4) (sampleSlice 3 1) i2 st2 = (ef, st3) \<and>
      view st3 ef = [(''req'', ''42''), (''user'', ''7''), (''app'', ''acme'')] \<and>
      view st2 (sampleSlice 0 0) = [] \<and>
      view st2 i1 = [(''user'', ''7'')])"
proof -
  let ?g = "\<lambda>c n. 4 :: nat"
  let ?i1 = "\<lparr>arr = 4, off = 0, len = 1, cap = 4\<rparr>"
  let ?st1 = "sampleStore @ [[(''user'', ''7''), zeroField, zeroField, zeroField]]"
  let ?i2 = "\<lparr>arr = 4, off = 0, len = 2, cap = 4\<rparr>"
  let ?st2 = "sampleStore @ [[(''user'', ''7''), (''app'', ''acme''), zeroField, zeroField]]"
  let ?ef = "\<lparr>arr = 5, off = 0, len = 3, cap = 4\<rparr>"
  let ?st3 = "?st2 @ [[(''req'', ''42''), (''user'', ''7''), (''app'', ''acme''), zeroField]]"
  have w0: "wf_slice sampleStore (sampleSlice 0 0)"
    by (simp add: wf_slice_def sampleStore_def sampleSlice_def)
  have d1: "With_inheritedFields ?g (sampleSlice 0 0) (sampleSlice 1 1) sampleStore = (?i1, ?st1)"
    by (simp add: With_inheritedFields_def goAppend_def view_def sampleStore_def sampleSlice_def
        Let_def eval_nat_numeral)
  have d2: "With_inheritedFields ?g ?i1 (sampleSlice 2 1) ?st1 = (?i2, ?st2)"
    by (simp add: With_inheritedFields_def goAppend_def view_def sampleStore_def sampleSlice_def
        Let_def eval_nat_numeral)
  have w2: "wf_slice ?st2 (sampleSlice 3 1)"
    by (simp add: wf_slice_def sampleStore_def sampleSlice_def eval_nat_numeral)
  have d3: "Write_entryFields ?g (sampleSlice 3 1) ?i2 ?st2 = (?ef, ?st3)"
    by (simp add: Write_entryFields_def goAppend_def view_def sampleStore_def sampleSlice_def
        Let_def eval_nat_numeral)
  have v: "view ?st2 (sampleSlice 3 1) = [(''req'', ''42'')]" "view sampleStore (sampleSlice 0 0) = []"
    "view sampleStore (sampleSlice 1 1) = [(''user'', ''7'')]"
    "view ?st1 (sampleSlice 2 1) = [(''app'', ''acme'')]"
    "view ?st1 ?i1 = [(''user'', ''7'')]"
    by (simp_all add: view_def sampleStore_def sampleSlice_def eval_nat_numeral)
  from With_twice_resolves_fields_parent_unchanged[OF w0 d1 d2 w2 d3] v
  have "view ?st3 ?ef = [(''req'', ''42''), (''user'', ''7''), (''app'', ''acme'')] \<and>
      view ?st2 (sampleSlice 0 0) = [] \<and> view ?st2 ?i1 = [(''user'', ''7'')]"
    by simp
  with w0 d1 d2 w2 d3 show ?thesis
    by (intro conjI exI[of _ ?i1] exI[of _ ?st1] exI[of _ ?i2] exI[of _ ?st2]
        exI[of _ ?ef] exI[of _ ?st3]) simp_all
qed

section \<open>The drain loop\<close>

text \<open>Alone on the channel, a drain returns, and the channel is empty after it.\<close>

lemma handleNewQueueEntries_empties:
  "\<exists>w'. handleNewQueueEntries h w = Some w' \<and> (entriesChan h \<noteq> None \<longrightarrow> chanBuf w' = [])"
proof (cases "entriesChan h")
  case None
  then show ?thesis
    by (subst handleNewQueueEntries.simps) (simp add: chanLen_def)
next
  case (Some n)
  from handleNewQueueEntries_drains[OF this refl, of w] Some show ?thesis by simp
qed

text \<open>
  With no other goroutine receiving from the channel: after any number of ticks, the
  \<^verbatim>\<open>ctx.Done\<close> case is followed by one drain and the return of the context's error; what the
  list holds after \<^verbatim>\<open>ctx.Done\<close> is not looked at.
\<close>

lemma consumeLoop_returns_on_cancel:
  "\<exists>w'. consumeLoop h ctx (replicate k TickerC @ CtxDone # evs) w = Returned (Err ctx) w' \<and>
        (entriesChan h \<noteq> None \<longrightarrow> chanBuf w' = [])"
proof (induction k arbitrary: w)
  case 0
  from handleNewQueueEntries_empties[of h w] show ?case by auto
next
  case (Suc k)
  from handleNewQueueEntries_empties[of h w] obtain w1 where
    "handleNewQueueEntries h w = Some w1" by blast
  with Suc.IH[of w1] show ?case by simp
qed

lemma consumeEntriesQueue_returns_on_cancel:
  assumes "0 < sint (intervalQueue h)"
  shows "\<exists>w'. consumeEntriesQueue h ctx (replicate k TickerC @ CtxDone # evs) w = Returned (Err ctx) w' \<and>
        (entriesChan h \<noteq> None \<longrightarrow> chanBuf w' = [])"
  using assms consumeLoop_returns_on_cancel[of h ctx k evs w]
  by (simp add: consumeEntriesQueue_def)

lemma consumeLoop_waits_without_cancel:
  "\<exists>w'. consumeLoop h ctx (replicate k TickerC) w = Waiting w'"
proof (induction k arbitrary: w)
  case 0
  show ?case by simp
next
  case (Suc k)
  from handleNewQueueEntries_empties[of h w] obtain w1 where
    "handleNewQueueEntries h w = Some w1" by blast
  with Suc.IH[of w1] show ?case by simp
qed

subsection \<open>The race between the drain loop and Sync\<close>

text \<open>Scheduled alone, the steps of a goroutine compute \<^verbatim>\<open>handleNewQueueEntries\<close>.\<close>

lemma runSchedule_alone:
  assumes "entriesChan h = Some n"
  shows "chanBuf w = q \<Longrightarrow>
     runSchedule h (replicate (2 * length q + 1) DrainLoop) (AtLen, ps, w) =
       Some (AtReturn, ps,
             w\<lparr>chanBuf := [],
               api := foldl (\<lambda>a (ent, flds). snd (sendMessage (telegramClient h) ent flds a))
                        (api w) q\<rparr>)"
proof (induction q arbitrary: w)
  case Nil
  then show ?case using assms by (simp add: hStep_def chanLen_def)
next
  case (Cons ce rest)
  obtain ent flds where ce: "ce = (ent, flds)" by (cases ce)
  let ?w1 = "w\<lparr>chanBuf := rest, api := snd (sendMessage (telegramClient h) ent flds (api w))\<rparr>"
  have r: "replicate (2 * length (ce # rest) + 1) DrainLoop =
      DrainLoop # DrainLoop # replicate (2 * length rest + 1) DrainLoop"
    by simp
  have "chanBuf ?w1 = rest" by simp
  from Cons.IH[OF this] Cons.prems assms show ?case
    unfolding r by (simp add: hStep_def chanLen_def chanRecv_def ce)
qed

lemma runSchedule_alone_handleNewQueueEntries:
  assumes "entriesChan h = Some n"
  shows "runSchedule h (replicate (2 * length (chanBuf w) + 1) DrainLoop) (AtLen, ps, w) =
     (case handleNewQueueEntries h w of None \<Rightarrow> None | Some w' \<Rightarrow> Some (AtReturn, ps, w'))"
  using runSchedule_alone[OF assms refl, of w ps] handleNewQueueEntries_drains[OF assms refl, of w]
  by simp

text \<open>
  Claim C5. The claim: in queued mode, after \<open>N\<close> entries were enqueued, \<^verbatim>\<open>Sync\<close> makes
  the \<open>N\<close> delivery attempts and leaves the queue empty. On the code, with the core and
  the world that construction with \<^verbatim>\<open>WithQueue\<close> leaves (the drain loop started) and two
  entries enqueued: \<^verbatim>\<open>Sync\<close> finds the length positive; the drain loop, on a tick, finds
  it positive, receives and sends the first entry, receives and sends the second, finds
  the length zero and returns; \<^verbatim>\<open>Sync\<close> is then about to receive from the empty channel
  and has no step. It has made none of the two attempts and does not return.
\<close>

theorem Sync_blocks_on_receive_after_drain_loop:
  "drainLoops (sampleWorld [WithQueue sampleCtx 1000 2]) = [sampleCtx] \<and>
   (\<exists>w1 w'.
      WriteAll (sampleCore [WithQueue sampleCtx 1000 2])
        [(sampleEntry ErrorLevel, []), (sampleEntry WarnLevel, [])]
        (sampleWorld [WithQueue sampleCtx 1000 2]) = Some w1 \<and>
      length (chanBuf w1) = 2 \<and> sent (api w1) = [] \<and>
      runSchedule (sampleCore [WithQueue sampleCtx 1000 2])
        [SyncCaller, DrainLoop, DrainLoop, DrainLoop, DrainLoop, DrainLoop]
        (AtLen, AtLen, w1) = Some (AtReturn, AtRecv, w') \<and>
      chanBuf w' = [] \<and>
      map ChatID (sent (api w')) = [1, 2, 1, 2] \<and>
      hStep (sampleCore [WithQueue sampleCtx 1000 2]) (AtRecv, w') = None)"
  by (simp add: sampleWorld_def fixture_defs construct_defs option_defs sampleCtx_def
      Write_def chanSend_def hStep_def chanLen_def chanRecv_def
      sendMessage_def Send_def Let_def buildMessage_ChatID)

text \<open>
  Claim C8. The claim: on cancellation the drain loop makes one final drain, returns the
  context's error, and never waits on a receive. On the code, with one entry on the
  channel and \<^verbatim>\<open>Sync\<close> called while the loop makes its drain: the loop finds the length
  positive; \<^verbatim>\<open>Sync\<close> finds it positive, receives the entry, sends it, finds the length zero
  and returns; the loop is then about to receive from the empty channel and has no step,
  until a producer sends. It has not returned the context's error.
\<close>

theorem drain_loop_blocks_on_receive_after_Sync:
  "\<exists>w'. runSchedule (sampleCore [WithQueue sampleCtx 1000 2])
           [DrainLoop, SyncCaller, SyncCaller, SyncCaller]
           (AtLen, AtLen, quietWorld\<lparr>chanBuf := [(sampleEntry ErrorLevel, [])]\<rparr>)
         = Some (AtRecv, AtReturn, w') \<and>
        chanBuf w' = [] \<and>
        map ChatID (sent (api w')) = [1, 2] \<and>
        hStep (sampleCore [WithQueue sampleCtx 1000 2]) (AtRecv, w') = None"
  by (simp add: fixture_defs construct_defs option_defs hStep_def chanLen_def chanRecv_def
      sendMessage_def Send_def Let_def buildMessage_ChatID)

end
